theory Spec2Isabelle
  imports Complex_Main "HOL-Library.Multiset"
begin

section \<open>The document-analysis service as the notebook sees it\<close>

text \<open>
  The notebook \<^verbatim>\<open>Lab1-boto3 API/Document processing.ipynb\<close> starts an asynchronous
  document-analysis job and then runs three cells against it: a status poll loop, a
  loop collecting the result pages along the \<^verbatim>\<open>NextToken\<close> chain, and a cell that
  parses the collected responses into document pages and prints their text. The cells
  are top-level code working on the global variables \<^verbatim>\<open>response\<close>, \<^verbatim>\<open>status\<close>,
  \<^verbatim>\<open>pages\<close>, \<^verbatim>\<open>nextToken\<close>, \<^verbatim>\<open>doc\<close> and \<^verbatim>\<open>idx\<close>; each cell is modelled as a
  function that takes the world before the cell and returns the variables it binds and
  the world after it.

  A response of \<^verbatim>\<open>get_document_analysis\<close> is a dictionary; the model keeps the keys the
  cells and the page parser read (\<^verbatim>\<open>JobStatus\<close>, \<^verbatim>\<open>NextToken\<close>, \<^verbatim>\<open>Blocks\<close>) and the
  reason the service reports for a failed job (\<^verbatim>\<open>StatusMessage\<close>), which no cell reads.
  The key \<^verbatim>\<open>NextToken\<close> may be absent: \<open>None\<close>.
\<close>

record block =
  BlockType :: string
  BlockId :: string
  Text :: string

record response =
  JobStatus :: string
  StatusMessage :: "string option"
  NextToken :: "string option"
  Blocks :: "block list"

text \<open>
  What a cell does besides binding variables is recorded in a trace, in order:
  \<^verbatim>\<open>time.sleep(n)\<close>, a call of \<^verbatim>\<open>textract.get_document_analysis\<close> with its
  \<^verbatim>\<open>JobId\<close> and its \<^verbatim>\<open>NextToken\<close> argument (\<open>None\<close> when the argument is not passed),
  and \<^verbatim>\<open>print\<close> with the text printed. The output of the \<^verbatim>\<open>%%time\<close> cell magic is
  Jupyter's, not the program's, and is left out.
\<close>

datatype event =
    Sleep nat
  | GetDocumentAnalysis string "string option"
  | Print string

text \<open>
  The world is the state of the remote service and the trace so far. The service
  client is a parameter of every cell: given the service state, the job id and the
  token, it returns the response and the next service state.
\<close>

record 's world =
  service :: 's
  trace :: "event list"

type_synonym 's textract = "'s \<Rightarrow> string \<Rightarrow> string option \<Rightarrow> response \<times> 's"

definition sleep :: "nat \<Rightarrow> 's world \<Rightarrow> 's world" where
  "sleep secs w = w\<lparr>trace := trace w @ [Sleep secs]\<rparr>"

definition print :: "string \<Rightarrow> 's world \<Rightarrow> 's world" where
  "print line w = w\<lparr>trace := trace w @ [Print line]\<rparr>"

definition get_document_analysis ::
  "'s textract \<Rightarrow> string \<Rightarrow> string option \<Rightarrow> 's world \<Rightarrow> response \<times> 's world" where
  "get_document_analysis textract JobId token w =
     (let (response, s) = textract (service w) JobId token
      in (response, w\<lparr>service := s, trace := trace w @ [GetDocumentAnalysis JobId token]\<rparr>))"

text \<open>\<^verbatim>\<open>"{}".format(n)\<close> for a non-negative integer: its decimal digits.\<close>

definition digit :: "nat \<Rightarrow> char" where
  "digit d = ''0123456789'' ! d"

function str :: "nat \<Rightarrow> string" where
  "str n = (if n < 10 then [digit n] else str (n div 10) @ [digit (n mod 10)])"
  by pat_completeness auto
termination
  by (relation "measure id") auto

declare str.simps [simp del]

text \<open>
  Python's truth value of \<^verbatim>\<open>nextToken\<close>, which is \<^verbatim>\<open>None\<close> or a string: \<^verbatim>\<open>None\<close>
  and the empty string are false.
\<close>

definition truthy :: "string option \<Rightarrow> bool" where
  "truthy v = (case v of None \<Rightarrow> False | Some s \<Rightarrow> s \<noteq> [])"

text \<open>
  Neither \<^verbatim>\<open>while\<close> loop of the notebook has a bound, so a loop is a partial
  function: \<open>None\<close> is the loop that never exits.
\<close>

partial_function (option) while_loop :: "('a \<Rightarrow> bool) \<Rightarrow> ('a \<Rightarrow> 'a) \<Rightarrow> 'a \<Rightarrow> 'a option" where
  "while_loop cond body s = (if cond s then while_loop cond body (body s) else Some s)"

declare while_loop.simps [code]

subsection \<open>The status poll cell\<close>

text \<open>
  \<^verbatim>\<open>
  time.sleep(5)
  response = textract.get_document_analysis(JobId=textractJobId)
  status = response["JobStatus"]

  while(status == "IN_PROGRESS"):
      time.sleep(5)
      response = textract.get_document_analysis(JobId=textractJobId)
      status = response["JobStatus"]
      print("Textract Job status: {}".format(status))
  \<close>
  The cell has no \<^verbatim>\<open>raise\<close>, no \<^verbatim>\<open>try\<close> and no comparison of \<^verbatim>\<open>status\<close> other than
  the loop test, so its model has no error branch: it returns \<^verbatim>\<open>response\<close>, \<^verbatim>\<open>status\<close>
  and the world, or never returns.
\<close>

definition poll :: "'s textract \<Rightarrow> string \<Rightarrow> 's world \<Rightarrow> response \<times> string \<times> 's world" where
  "poll textract textractJobId w =
     (let w = sleep 5 w;
          (response, w) = get_document_analysis textract textractJobId None w;
          status = JobStatus response
      in (response, status, w))"

definition in_progress :: "response \<times> string \<times> 's world \<Rightarrow> bool" where
  "in_progress = (\<lambda>(response, status, w). status = ''IN_PROGRESS'')"

definition poll_again ::
  "'s textract \<Rightarrow> string \<Rightarrow> response \<times> string \<times> 's world \<Rightarrow> response \<times> string \<times> 's world" where
  "poll_again textract textractJobId = (\<lambda>(response, status, w).
     let (response, status, w) = poll textract textractJobId w;
         w = print (''Textract Job status: '' @ status) w
     in (response, status, w))"

definition awaitCompletion ::
  "'s textract \<Rightarrow> string \<Rightarrow> 's world \<Rightarrow> (response \<times> string \<times> 's world) option" where
  "awaitCompletion textract textractJobId w =
     while_loop in_progress (poll_again textract textractJobId) (poll textract textractJobId w)"

subsection \<open>The page collection cell\<close>

text \<open>
  \<^verbatim>\<open>
  pages = []
  time.sleep(5)
  response = textract.get_document_analysis(JobId=textractJobId)
  pages.append(response)
  nextToken = None
  if('NextToken' in response):
      nextToken = response['NextToken']

  while(nextToken):
      time.sleep(5)
      response = textract.get_document_analysis(JobId=textractJobId, NextToken=nextToken)
      pages.append(response)
      print("Resultset page recieved: {}".format(len(pages)))
      nextToken = None
      if('NextToken' in response):
          nextToken = response['NextToken']
  \<close>
  The cell does not read \<^verbatim>\<open>status\<close> or \<^verbatim>\<open>JobStatus\<close>. It returns \<^verbatim>\<open>pages\<close>,
  \<^verbatim>\<open>nextToken\<close> and the world, or never returns.
\<close>

definition next_token :: "response \<Rightarrow> string option" where
  "next_token response =
     (let nextToken = None
      in if NextToken response \<noteq> None then NextToken response else nextToken)"

definition has_token :: "response list \<times> string option \<times> 's world \<Rightarrow> bool" where
  "has_token = (\<lambda>(pages, nextToken, w). truthy nextToken)"

definition next_page ::
  "'s textract \<Rightarrow> string \<Rightarrow> response list \<times> string option \<times> 's world
     \<Rightarrow> response list \<times> string option \<times> 's world" where
  "next_page textract textractJobId = (\<lambda>(pages, nextToken, w).
     let w = sleep 5 w;
         (response, w) = get_document_analysis textract textractJobId nextToken w;
         pages = pages @ [response];
         w = print (''Resultset page recieved: '' @ str (length pages)) w;
         nextToken = next_token response
     in (pages, nextToken, w))"

definition first_page ::
  "'s textract \<Rightarrow> string \<Rightarrow> 's world \<Rightarrow> response list \<times> string option \<times> 's world" where
  "first_page textract textractJobId w =
     (let pages = [];
          w = sleep 5 w;
          (response, w) = get_document_analysis textract textractJobId None w;
          pages = pages @ [response];
          nextToken = next_token response
      in (pages, nextToken, w))"

definition collectPages ::
  "'s textract \<Rightarrow> string \<Rightarrow> 's world \<Rightarrow> (response list \<times> string option \<times> 's world) option" where
  "collectPages textract textractJobId w =
     while_loop has_token (next_page textract textractJobId) (first_page textract textractJobId w)"

subsection \<open>The page parser\<close>

text \<open>
  \<^verbatim>\<open>trp.Document\<close> comes from the package \<^verbatim>\<open>textract-trp\<close> (version 0.1.3) that the
  notebook installs with \<^verbatim>\<open>pip\<close>; it is a third-party library, not code of the
  repository. Its constructor is modelled after the library: it walks the blocks of
  all responses in order and starts a new document page at every block of type
  \<^verbatim>\<open>PAGE\<close>. In outline:
  \<^verbatim>\<open>
  documentPages = []
  documentPage = None
  for page in self._responsePages:
      for block in page['Blocks']:
          if(block['BlockType'] == 'PAGE'):
              if(documentPage):
                  documentPages.append({"Blocks" : documentPage})
              documentPage = []
              documentPage.append(block)
          else:
              documentPage.append(block)
  if(documentPage):
      documentPages.append({"Blocks" : documentPage})
  \<close>
  A first block that is not of type \<^verbatim>\<open>PAGE\<close> calls \<^verbatim>\<open>append\<close> on \<^verbatim>\<open>None\<close>, which
  raises \<^verbatim>\<open>AttributeError\<close>. The text of a page is the text of its \<^verbatim>\<open>LINE\<close> blocks,
  each followed by a newline; the other block types add nothing to the text. The
  output recorded in the notebook agrees with this: the collection cell ran for
  5.4 seconds and printed no \<^verbatim>\<open>Resultset page recieved\<close> line, so it received one
  response, and the next cell printed \<^verbatim>\<open>Total length of document is 2\<close>.
\<close>

datatype py_error = AttributeError

record page =
  page_blocks :: "block list"
  page_text :: string

type_synonym parser_state = "block list list \<times> block list option"

definition flush :: "parser_state \<Rightarrow> block list list" where
  "flush = (\<lambda>(documentPages, documentPage).
     case documentPage of
       None \<Rightarrow> documentPages
     | Some blocks \<Rightarrow> if blocks \<noteq> [] then documentPages @ [blocks] else documentPages)"

definition parse_block :: "block \<Rightarrow> parser_state \<Rightarrow> py_error + parser_state" where
  "parse_block block = (\<lambda>(documentPages, documentPage).
     if BlockType block = ''PAGE''
     then Inr (flush (documentPages, documentPage), Some [block])
     else (case documentPage of
             None \<Rightarrow> Inl AttributeError
           | Some blocks \<Rightarrow> Inr (documentPages, Some (blocks @ [block]))))"

fun parse_blocks :: "block list \<Rightarrow> parser_state \<Rightarrow> py_error + parser_state" where
  "parse_blocks [] st = Inr st"
| "parse_blocks (block # blocks) st =
     (case parse_block block st of Inl e \<Rightarrow> Inl e | Inr st' \<Rightarrow> parse_blocks blocks st')"

fun parse_responses :: "response list \<Rightarrow> parser_state \<Rightarrow> py_error + parser_state" where
  "parse_responses [] st = Inr st"
| "parse_responses (page # responsePages) st =
     (case parse_blocks (Blocks page) st of
        Inl e \<Rightarrow> Inl e
      | Inr st' \<Rightarrow> parse_responses responsePages st')"

definition parseDocumentPages :: "response list \<Rightarrow> py_error + block list list" where
  "parseDocumentPages responsePages =
     (case parse_responses responsePages ([], None) of
        Inl e \<Rightarrow> Inl e
      | Inr st \<Rightarrow> Inr (flush st))"

definition line_text :: "block \<Rightarrow> string" where
  "line_text block = (if Text block \<noteq> [] then Text block else [])"

fun parse_page_text :: "block list \<Rightarrow> string \<Rightarrow> string" where
  "parse_page_text [] text = text"
| "parse_page_text (item # blocks) text =
     parse_page_text blocks
       (if BlockType item = ''LINE'' then text @ line_text item @ [CHR 0x0A] else text)"

definition Page :: "block list \<Rightarrow> page" where
  "Page blocks = \<lparr>page_blocks = blocks, page_text = parse_page_text blocks []\<rparr>"

definition Document :: "response list \<Rightarrow> py_error + page list" where
  "Document responsePages =
     (case parseDocumentPages responsePages of
        Inl e \<Rightarrow> Inl e
      | Inr documentPages \<Rightarrow> Inr (map Page documentPages))"

subsection \<open>The cell that prints the document\<close>

text \<open>
  \<^verbatim>\<open>
  doc = trp.Document(pages)
  print("Total length of document is",len(doc.pages))
  idx=1
  for page in doc.pages:
      print(color.BOLD + f"Results from page {idx}: \n" + color.END, page.text)
      idx=idx+1
  \<close>
  The class \<^verbatim>\<open>color\<close> comes from the module \<^verbatim>\<open>preprocess\<close>, which is not among the
  sources; its two strings are parameters. \<^verbatim>\<open>print\<close> joins its arguments with one
  space. The cell binds \<^verbatim>\<open>doc\<close> and \<^verbatim>\<open>idx\<close> and prints; when the parser raises,
  nothing is printed.
\<close>

fun print_pages :: "string \<Rightarrow> string \<Rightarrow> page list \<Rightarrow> nat \<Rightarrow> 's world \<Rightarrow> nat \<times> 's world" where
  "print_pages BOLD END [] idx w = (idx, w)"
| "print_pages BOLD END (page # pages) idx w =
     (let w = print (BOLD @ ''Results from page '' @ str idx @ '': '' @ [CHR 0x0A] @ END
                       @ '' '' @ page_text page) w;
          idx = idx + 1
      in print_pages BOLD END pages idx w)"

definition aggregateText ::
  "string \<Rightarrow> string \<Rightarrow> response list \<Rightarrow> 's world \<Rightarrow> (py_error + page list \<times> nat) \<times> 's world" where
  "aggregateText BOLD END pages w =
     (case Document pages of
        Inl e \<Rightarrow> (Inl e, w)
      | Inr doc \<Rightarrow>
          let w = print (''Total length of document is'' @ '' '' @ str (length doc)) w;
              idx = 1;
              (idx, w) = print_pages BOLD END doc idx w
          in (Inr (doc, idx), w))"

subsection \<open>Chunking of page text for the size-limited entity extractor\<close>

text \<open>
  The notebook \<^verbatim>\<open>Document processing.ipynb\<close> sends the text of every page to the
  entity extractor in windows of \<^verbatim>\<open>maxLength\<close> characters:
  \<^verbatim>\<open>
  maxLength=20000
  for page in doc.pages:
      pageText = page.text
      for i in range(0, len(pageText), maxLength):
          response = comprehend_medical_client.detect_entities_v2(Text=pageText[0+i:maxLength+i])
          comprehendResponse.append(response)
  \<close>
  A Python \<^verbatim>\<open>str\<close> is a sequence of code points and \<^verbatim>\<open>len\<close> and slicing count code
  points, so the text is a list over an arbitrary element type.
\<close>

definition maxLength :: nat where
  "maxLength = 20000"

text \<open>
  \<^verbatim>\<open>range(start, stop, step)\<close> for non-negative arguments. Python raises
  \<^verbatim>\<open>ValueError\<close> for a zero step; the notebook's step is the constant 20000, and the
  model yields no index for step 0.
\<close>

function py_range :: "nat \<Rightarrow> nat \<Rightarrow> nat \<Rightarrow> nat list" where
  "py_range start stop step =
     (if step = 0 \<or> stop \<le> start then [] else start # py_range (start + step) stop step)"
  by pat_completeness auto
termination
  by (relation "measure (\<lambda>(start, stop, step). stop - start)") auto

declare py_range.simps [simp del]

text \<open>The slice \<^verbatim>\<open>s[lo:hi]\<close> for \<open>0 \<le> lo\<close>: Python clamps both bounds to the length.\<close>

definition py_slice :: "'a list \<Rightarrow> nat \<Rightarrow> nat \<Rightarrow> 'a list" where
  "py_slice s lo hi = take (hi - lo) (drop lo s)"

text \<open>The arguments of the successive \<^verbatim>\<open>detect_entities_v2\<close> calls for one page text.\<close>

definition chunks :: "nat \<Rightarrow> 'a list \<Rightarrow> 'a list list" where
  "chunks m pageText =
     map (\<lambda>i. py_slice pageText (0 + i) (m + i)) (py_range 0 (length pageText) m)"

subsection \<open>The train, validation and test split\<close>

text \<open>
  A third notebook of the repository divides the image ids of a data set into three
  splits:
  \<^verbatim>\<open>
  np.random.seed(0)
  image_ids = sorted(list(sample_annos.keys()))
  np.random.shuffle(image_ids)
  first_80 = int(len(image_ids) * 0.8)
  next_10 = int(len(image_ids) * 0.9)
  train_ids, val_ids, test_ids = np.split(image_ids, [first_80, next_10])
  \<close>
  The two split points are computed in double precision. A double with 53
  significant bits is \<open>x / 2 ^ e\<close> for a natural number \<open>x\<close>; rounding to the nearest
  double, ties to even, acts on the numerator alone. The literals \<^verbatim>\<open>0.8\<close> and
  \<^verbatim>\<open>0.9\<close> are the doubles \<open>7205759403792794 / 2 ^ 53\<close> and
  \<open>8106479329266893 / 2 ^ 53\<close>. \<^verbatim>\<open>len(image_ids) * 0.8\<close> converts the length to a
  double, multiplies exactly and rounds once; \<^verbatim>\<open>int\<close> truncates. The length of a
  Python list is below \<open>2 ^ 63\<close>, far from the range where the conversion overflows,
  so overflow is not part of the model.
\<close>

text \<open>\<^verbatim>\<open>int.bit_length()\<close>: the number of binary digits.\<close>

function bit_length :: "nat \<Rightarrow> nat" where
  "bit_length n = (if n = 0 then 0 else Suc (bit_length (n div 2)))"
  by pat_completeness auto
termination
  by (relation "measure id") auto

declare bit_length.simps [simp del]

text \<open>
  \<open>x\<close> rounded to the nearest multiple of \<open>2 ^ s\<close>, ties to the even multiple, and
  \<open>x\<close> rounded to 53 significant bits.
\<close>

definition round_half_even :: "nat \<Rightarrow> nat \<Rightarrow> nat" where
  "round_half_even s x =
     (let q = x div 2 ^ s; r = x mod 2 ^ s
      in if 2 * r < 2 ^ s \<or> (2 * r = 2 ^ s \<and> even q) then q * 2 ^ s else (q + 1) * 2 ^ s)"

definition to_double :: "nat \<Rightarrow> nat" where
  "to_double x = round_half_even (bit_length x - 53) x"

text \<open>\<^verbatim>\<open>int(n * c)\<close> for a list length \<open>n\<close> and the double \<open>c = m / 2 ^ 53\<close>.\<close>

definition int_times :: "nat \<Rightarrow> nat \<Rightarrow> nat" where
  "int_times n m = to_double (to_double n * m) div 2 ^ 53"

definition double_0_8 :: nat where
  "double_0_8 = 7205759403792794"

definition double_0_9 :: nat where
  "double_0_9 = 8106479329266893"

text \<open>
  \<^verbatim>\<open>np.split(ary, [i, j])\<close> cuts at the division points \<open>0\<close>, \<open>i\<close>, \<open>j\<close> and the
  length: it returns the slices \<^verbatim>\<open>ary[0:i]\<close>, \<^verbatim>\<open>ary[i:j]\<close> and \<^verbatim>\<open>ary[j:]\<close>.
\<close>

definition np_split :: "'a list \<Rightarrow> nat \<Rightarrow> nat \<Rightarrow> 'a list \<times> 'a list \<times> 'a list" where
  "np_split ary i j =
     (let Ntotal = length ary
      in (py_slice ary 0 i, py_slice ary i j, py_slice ary j Ntotal))"

text \<open>
  The dictionary \<^verbatim>\<open>sample_annos\<close> is the list of its items, whose keys are distinct.
  \<^verbatim>\<open>np.random.shuffle\<close> permutes the list in place; which permutation the seed gives
  is the library's matter, so the shuffle is a parameter of the cell.
\<close>

record 'k splits =
  image_ids :: "'k list"
  train_ids :: "'k list"
  val_ids :: "'k list"
  test_ids :: "'k list"

definition split_cell ::
  "('k list \<Rightarrow> 'k list) \<Rightarrow> ('k::linorder \<times> 'v) list \<Rightarrow> 'k splits" where
  "split_cell shuffle sample_annos =
     (let image_ids = sort (map fst sample_annos);
          image_ids = shuffle image_ids;
          first_80 = int_times (length image_ids) double_0_8;
          next_10 = int_times (length image_ids) double_0_9;
          (train_ids, val_ids, test_ids) = np_split image_ids first_80 next_10
      in \<lparr>image_ids = image_ids, train_ids = train_ids, val_ids = val_ids,
          test_ids = test_ids\<rparr>)"

section \<open>Scripted services and the vocabulary of the statements\<close>

text \<open>
  A run of a cell sees the service only through the sequence of answers it gets. A
  scripted service gives the answers of a sequence \<open>answers\<close> one after the other,
  whatever it is asked; its state is the number of requests answered so far. The
  statements below hold for every such sequence.
\<close>

definition scripted :: "(nat \<Rightarrow> response) \<Rightarrow> nat textract" where
  "scripted answers n JobId token = (answers n, Suc n)"

text \<open>
  The answers an arbitrary service gives to the status cell, which always asks without
  a token, and to the collection cell, which asks with the token of the previous
  answer. Lemmas \<open>awaitCompletion_any_service\<close> and \<open>collectPages_any_service\<close> show
  that a cell run against any service returns what it returns against the script of
  these answers, and leaves the same trace.
\<close>

fun poll_state :: "'s textract \<Rightarrow> string \<Rightarrow> 's \<Rightarrow> nat \<Rightarrow> 's" where
  "poll_state textract job s 0 = s"
| "poll_state textract job s (Suc i) = snd (textract (poll_state textract job s i) job None)"

definition poll_answers :: "'s textract \<Rightarrow> string \<Rightarrow> 's \<Rightarrow> nat \<Rightarrow> response" where
  "poll_answers textract job s i = fst (textract (poll_state textract job s i) job None)"

fun page_state :: "'s textract \<Rightarrow> string \<Rightarrow> 's \<Rightarrow> nat \<Rightarrow> string option \<times> 's" where
  "page_state textract job s 0 = (None, s)"
| "page_state textract job s (Suc i) =
     (let (token, st) = page_state textract job s i;
          (response, st) = textract st job token
      in (NextToken response, st))"

definition page_answers :: "'s textract \<Rightarrow> string \<Rightarrow> 's \<Rightarrow> nat \<Rightarrow> response" where
  "page_answers textract job s i =
     (let (token, st) = page_state textract job s i in fst (textract st job token))"

definition answer :: "string \<Rightarrow> string option \<Rightarrow> string option \<Rightarrow> block list \<Rightarrow> response" where
  "answer status message token blocks =
     \<lparr>JobStatus = status, StatusMessage = message, NextToken = token, Blocks = blocks\<rparr>"

definition text_line :: "string \<Rightarrow> block" where
  "text_line s = \<lparr>BlockType = ''LINE'', BlockId = s, Text = s\<rparr>"

definition page_start :: "string \<Rightarrow> block" where
  "page_start s = \<lparr>BlockType = ''PAGE'', BlockId = s, Text = []\<rparr>"

text \<open>One response that holds two pages of the source document.\<close>

definition two_page_answer :: response where
  "two_page_answer = \<lparr>JobStatus = ''SUCCEEDED'', StatusMessage = None, NextToken = None,
     Blocks = [page_start ''p1'', text_line ''Admission'', page_start ''p2'', text_line ''Discharge'']\<rparr>"

text \<open>The \<^verbatim>\<open>NextToken\<close> arguments of the requests in a trace, in order.\<close>

fun request :: "event \<Rightarrow> string option list" where
  "request (GetDocumentAnalysis JobId token) = [token]"
| "request (Sleep secs) = []"
| "request (Print line) = []"

definition requests :: "event list \<Rightarrow> string option list" where
  "requests tr = concat (map request tr)"

text \<open>
  The events of one turn of the status loop and of one turn of the page loop against a
  scripted service, and the worlds the two cells leave behind after \<open>k\<close> turns.
\<close>

definition poll_events :: "string \<Rightarrow> (nat \<Rightarrow> response) \<Rightarrow> nat \<Rightarrow> event list" where
  "poll_events job f i =
     [Sleep 5, GetDocumentAnalysis job None, Print (''Textract Job status: '' @ JobStatus (f i))]"

definition page_events :: "string \<Rightarrow> (nat \<Rightarrow> response) \<Rightarrow> nat \<Rightarrow> nat \<Rightarrow> event list" where
  "page_events job f n i =
     [Sleep 5, GetDocumentAnalysis job (NextToken (f (n + i))),
      Print (''Resultset page recieved: '' @ str (i + 2))]"

definition polled :: "string \<Rightarrow> (nat \<Rightarrow> response) \<Rightarrow> nat \<Rightarrow> nat \<Rightarrow> event list \<Rightarrow> nat world" where
  "polled job f n k tr =
     \<lparr>service = Suc (n + k),
      trace = tr @ [Sleep 5, GetDocumentAnalysis job None]
              @ concat (map (\<lambda>i. poll_events job f (Suc (n + i))) [0..<k])\<rparr>"

definition paged :: "string \<Rightarrow> (nat \<Rightarrow> response) \<Rightarrow> nat \<Rightarrow> nat \<Rightarrow> event list \<Rightarrow> nat world" where
  "paged job f n k tr =
     \<lparr>service = Suc (n + k),
      trace = tr @ [Sleep 5, GetDocumentAnalysis job None]
              @ concat (map (page_events job f n) [0..<k])\<rparr>"

text \<open>What the printing cell prints for a document, and the text of the lines of a page.\<close>

definition printed :: "string \<Rightarrow> string \<Rightarrow> page list \<Rightarrow> event list" where
  "printed BOLD END doc =
     Print (''Total length of document is '' @ str (length doc))
     # map (\<lambda>(idx, page).
              Print (BOLD @ ''Results from page '' @ str idx @ '': '' @ [CHR 0x0A] @ END
                       @ '' '' @ page_text page))
         (zip [1..<Suc (length doc)] doc)"

definition lines_of :: "block list \<Rightarrow> string" where
  "lines_of blocks =
     concat (map (\<lambda>block. Text block @ [CHR 0x0A])
                 (filter (\<lambda>block. BlockType block = ''LINE'') blocks))"

text \<open>
  Measures of the parser state: the blocks consumed so far, the number of pages
  started so far, and the fact that an open page is never empty.
\<close>

definition flat :: "parser_state \<Rightarrow> block list" where
  "flat = (\<lambda>(documentPages, documentPage).
     concat documentPages @ (case documentPage of None \<Rightarrow> [] | Some blocks \<Rightarrow> blocks))"

definition open_ok :: "parser_state \<Rightarrow> bool" where
  "open_ok = (\<lambda>(documentPages, documentPage). documentPage \<noteq> Some [])"

definition started :: "parser_state \<Rightarrow> nat" where
  "started = (\<lambda>(documentPages, documentPage).
     length documentPages + (if documentPage = None then 0 else 1))"

definition page_starts :: "block list \<Rightarrow> nat" where
  "page_starts blocks = length (filter (\<lambda>block. BlockType block = ''PAGE'') blocks)"

text \<open>A dictionary of ten annotated images.\<close>

definition ten_annos :: "(nat \<times> string) list" where
  "ten_annos = [(17, ''cat''), (3, ''dog''), (11, ''cat''), (5, ''bird''), (2, ''dog''),
                (13, ''cat''), (7, ''bird''), (19, ''dog''), (23, ''cat''), (29, ''bird'')]"

section \<open>Loops\<close>

lemma while_loop_iterate:
  "(\<And>i. i < k \<Longrightarrow> cond ((body ^^ i) s)) \<Longrightarrow>
   while_loop cond body s = while_loop cond body ((body ^^ k) s)"
proof (induction k arbitrary: s)
  case 0
  show ?case by simp
next
  case (Suc k)
  from Suc.prems [of 0] have c0: "cond s" by simp
  have "\<And>i. i < k \<Longrightarrow> cond ((body ^^ i) (body s))"
    using Suc.prems [of "Suc _"] by (simp add: funpow_swap1)
  then have "while_loop cond body (body s) = while_loop cond body ((body ^^ k) (body s))"
    by (rule Suc.IH)
  with c0 show ?case
    by (simp add: while_loop.simps [of cond body s] funpow_swap1)
qed

lemma while_loop_stops:
  assumes "\<And>i. i < k \<Longrightarrow> cond ((body ^^ i) s)" and "\<not> cond ((body ^^ k) s)"
  shows "while_loop cond body s = Some ((body ^^ k) s)"
  using while_loop_iterate [of k cond body s, OF assms(1)] assms(2)
  by (simp add: while_loop.simps [of cond body "(body ^^ k) s"])

lemma while_loop_SomeD:
  assumes "while_loop cond body s = Some t"
  shows "\<exists>k. t = (body ^^ k) s \<and> \<not> cond t \<and> (\<forall>i<k. cond ((body ^^ i) s))"
proof (rule while_loop.raw_induct
    [where P = "\<lambda>c b s t. \<exists>k. t = (b ^^ k) s \<and> \<not> c t \<and> (\<forall>i<k. c ((b ^^ i) s))", OF _ assms],
    goal_cases)
  case (1 loop c b s t)
  show ?case
  proof (cases "c s")
    case False
    with 1(2) have "t = s" by simp
    with False show ?thesis by (intro exI [of _ 0]) simp
  next
    case True
    with 1(2) have "loop c b (b s) = Some t" by simp
    from 1(1) [OF this] obtain k where
      k: "t = (b ^^ k) (b s)" "\<not> c t" "\<forall>i<k. c ((b ^^ i) (b s))" by blast
    have "\<forall>i<Suc k. c ((b ^^ i) s)"
    proof (intro allI impI)
      fix i assume "i < Suc k"
      then show "c ((b ^^ i) s)"
        using True k(3) by (cases i) (simp_all add: funpow_swap1)
    qed
    with k(1,2) show ?thesis
      by (intro exI [of _ "Suc k"]) (simp add: funpow_swap1)
  qed
qed

lemma while_loop_diverges:
  assumes "\<And>k. cond ((body ^^ k) s)"
  shows "while_loop cond body s = None"
proof (rule ccontr)
  assume "while_loop cond body s \<noteq> None"
  then obtain t where "while_loop cond body s = Some t" by blast
  from while_loop_SomeD [OF this] assms show False by blast
qed

lemma while_loop_cases:
  obtains (stops) k where "\<And>i. i < k \<Longrightarrow> cond ((body ^^ i) s)" "\<not> cond ((body ^^ k) s)"
    "while_loop cond body s = Some ((body ^^ k) s)"
  | (diverges) "\<And>k. cond ((body ^^ k) s)" "while_loop cond body s = None"
proof (cases "\<exists>k. \<not> cond ((body ^^ k) s)")
  case True
  define k where "k = (LEAST k. \<not> cond ((body ^^ k) s))"
  from True have k: "\<not> cond ((body ^^ k) s)"
    unfolding k_def by (rule LeastI_ex)
  have less: "\<And>i. i < k \<Longrightarrow> cond ((body ^^ i) s)"
    unfolding k_def using not_less_Least by blast
  from while_loop_stops [of k cond body s, OF less k] less k show ?thesis
    by (rule_tac stops) auto
next
  case False
  then have "\<And>k. cond ((body ^^ k) s)" by blast
  with while_loop_diverges [of cond body s] show ?thesis
    by (rule_tac diverges) auto
qed

section \<open>The cells against a scripted service\<close>

lemma next_token_eq [simp]: "next_token r = NextToken r"
  by (simp add: next_token_def)

lemma poll_scripted:
  "poll (scripted f) job \<lparr>service = n, trace = tr\<rparr>
   = (f n, JobStatus (f n),
      \<lparr>service = Suc n, trace = tr @ [Sleep 5, GetDocumentAnalysis job None]\<rparr>)"
  by (simp add: poll_def sleep_def get_document_analysis_def scripted_def)

lemma poll_again_scripted:
  "poll_again (scripted f) job (r, st, \<lparr>service = m, trace = tr\<rparr>)
   = (f m, JobStatus (f m), \<lparr>service = Suc m, trace = tr @ poll_events job f m\<rparr>)"
  by (simp add: poll_again_def poll_scripted print_def poll_events_def)

lemma poll_again_funpow:
  "(poll_again (scripted f) job ^^ k)
     (f n, JobStatus (f n), \<lparr>service = Suc n, trace = tr\<rparr>)
   = (f (n + k), JobStatus (f (n + k)),
      \<lparr>service = Suc (n + k),
       trace = tr @ concat (map (\<lambda>i. poll_events job f (Suc (n + i))) [0..<k])\<rparr>)"
proof (induction k)
  case 0
  show ?case by simp
next
  case (Suc k)
  show ?case
    by (simp add: Suc.IH poll_again_scripted)
qed

lemma next_page_scripted:
  "next_page (scripted f) job (pages, tok, \<lparr>service = m, trace = tr\<rparr>)
   = (pages @ [f m], NextToken (f m),
      \<lparr>service = Suc m,
       trace = tr @ [Sleep 5, GetDocumentAnalysis job tok,
                     Print (''Resultset page recieved: '' @ str (Suc (length pages)))]\<rparr>)"
  by (simp add: next_page_def sleep_def get_document_analysis_def scripted_def print_def)

lemma next_page_funpow:
  "(next_page (scripted f) job ^^ k)
     ([f n], NextToken (f n), \<lparr>service = Suc n, trace = tr\<rparr>)
   = (map (\<lambda>i. f (n + i)) [0..<Suc k], NextToken (f (n + k)),
      \<lparr>service = Suc (n + k),
       trace = tr @ concat (map (page_events job f n) [0..<k])\<rparr>)"
proof (induction k)
  case 0
  show ?case by simp
next
  case (Suc k)
  show ?case
    by (simp add: Suc.IH next_page_scripted page_events_def)
qed

lemma first_page_scripted:
  "first_page (scripted f) job \<lparr>service = n, trace = tr\<rparr>
   = ([f n], NextToken (f n),
      \<lparr>service = Suc n, trace = tr @ [Sleep 5, GetDocumentAnalysis job None]\<rparr>)"
  by (simp add: first_page_def sleep_def get_document_analysis_def scripted_def)

lemma awaitCompletion_scripted:
  assumes "\<And>i. i < k \<Longrightarrow> JobStatus (f (n + i)) = ''IN_PROGRESS''"
    and "JobStatus (f (n + k)) \<noteq> ''IN_PROGRESS''"
  shows "awaitCompletion (scripted f) job \<lparr>service = n, trace = tr\<rparr>
         = Some (f (n + k), JobStatus (f (n + k)),
             \<lparr>service = Suc (n + k),
              trace = tr @ [Sleep 5, GetDocumentAnalysis job None]
                      @ concat (map (\<lambda>i. poll_events job f (Suc (n + i))) [0..<k])\<rparr>)"
proof -
  let ?s = "(f n, JobStatus (f n),
             \<lparr>service = Suc n, trace = tr @ [Sleep 5, GetDocumentAnalysis job None]\<rparr>)"
  have "while_loop in_progress (poll_again (scripted f) job) ?s
        = Some ((poll_again (scripted f) job ^^ k) ?s)"
    by (rule while_loop_stops) (simp_all add: poll_again_funpow in_progress_def assms)
  then show ?thesis
    by (simp add: awaitCompletion_def poll_scripted poll_again_funpow)
qed

lemma awaitCompletion_diverges:
  assumes "\<And>i. JobStatus (f (n + i)) = ''IN_PROGRESS''"
  shows "awaitCompletion (scripted f) job \<lparr>service = n, trace = tr\<rparr> = None"
  unfolding awaitCompletion_def poll_scripted
  by (rule while_loop_diverges) (simp add: poll_again_funpow in_progress_def assms)

lemma collectPages_scripted:
  assumes "\<And>i. i < k \<Longrightarrow> truthy (NextToken (f (n + i)))"
    and "\<not> truthy (NextToken (f (n + k)))"
  shows "collectPages (scripted f) job \<lparr>service = n, trace = tr\<rparr>
         = Some (map (\<lambda>i. f (n + i)) [0..<Suc k], NextToken (f (n + k)),
             \<lparr>service = Suc (n + k),
              trace = tr @ [Sleep 5, GetDocumentAnalysis job None]
                      @ concat (map (page_events job f n) [0..<k])\<rparr>)"
proof -
  let ?s = "([f n], NextToken (f n),
             \<lparr>service = Suc n, trace = tr @ [Sleep 5, GetDocumentAnalysis job None]\<rparr>)"
  have "while_loop has_token (next_page (scripted f) job) ?s
        = Some ((next_page (scripted f) job ^^ k) ?s)"
    by (rule while_loop_stops) (simp_all add: next_page_funpow has_token_def assms)
  then show ?thesis
    by (simp add: collectPages_def first_page_scripted next_page_funpow)
qed

lemma collectPages_diverges:
  assumes "\<And>i. truthy (NextToken (f (n + i)))"
  shows "collectPages (scripted f) job \<lparr>service = n, trace = tr\<rparr> = None"
  unfolding collectPages_def first_page_scripted
  by (rule while_loop_diverges) (simp add: next_page_funpow has_token_def assms)

lemma requests_append [simp]: "requests (xs @ ys) = requests xs @ requests ys"
  by (simp add: requests_def)

lemma requests_simps [simp]:
  "requests [] = []"
  "requests (Sleep secs # tr) = requests tr"
  "requests (GetDocumentAnalysis job token # tr) = token # requests tr"
  "requests (Print text # tr) = requests tr"
  by (simp_all add: requests_def)

lemma requests_page_events:
  "requests (concat (map (page_events job f n) [0..<k])) = map (\<lambda>i. NextToken (f (n + i))) [0..<k]"
  by (induction k) (simp_all add: page_events_def)

lemma requests_poll_events:
  "requests (concat (map (\<lambda>i. poll_events job f (g i)) [0..<k])) = replicate k None"
  by (induction k) (simp_all add: poll_events_def replicate_append_same)

lemma poll_again_trace:
  "(poll_again (scripted f) job ^^ k) (poll (scripted f) job \<lparr>service = n, trace = tr\<rparr>)
   = (f (n + k), JobStatus (f (n + k)), polled job f n k tr)"
  by (simp add: poll_scripted poll_again_funpow polled_def)

lemma requests_polled:
  "requests (trace (polled job f n k tr)) = requests tr @ replicate (Suc k) None"
  by (simp add: polled_def requests_poll_events)

subsection \<open>Any service behaves as the script of its answers\<close>

lemma poll_any:
  "poll textract job \<lparr>service = m, trace = tr\<rparr>
   = (fst (textract m job None), JobStatus (fst (textract m job None)),
      \<lparr>service = snd (textract m job None),
       trace = tr @ [Sleep 5, GetDocumentAnalysis job None]\<rparr>)"
  by (simp add: poll_def sleep_def get_document_analysis_def split: prod.splits)

lemma poll_again_any:
  "poll_again textract job (r, st, \<lparr>service = m, trace = tr\<rparr>)
   = (fst (textract m job None), JobStatus (fst (textract m job None)),
      \<lparr>service = snd (textract m job None),
       trace = tr @ [Sleep 5, GetDocumentAnalysis job None,
                     Print (''Textract Job status: '' @ JobStatus (fst (textract m job None)))]\<rparr>)"
  by (simp add: poll_again_def poll_any print_def)

lemma poll_again_any_funpow:
  "(poll_again textract job ^^ k) (poll textract job \<lparr>service = s, trace = tr\<rparr>)
   = (poll_answers textract job s k, JobStatus (poll_answers textract job s k),
      \<lparr>service = poll_state textract job s (Suc k),
       trace = trace (polled job (poll_answers textract job s) 0 k tr)\<rparr>)"
proof (induction k)
  case 0
  show ?case
    by (simp add: poll_any poll_answers_def polled_def)
next
  case (Suc k)
  show ?case
    by (simp add: Suc.IH poll_again_any poll_answers_def polled_def poll_events_def)
qed

lemma awaitCompletion_any_service:
  "map_option (\<lambda>(response, status, w). (response, status, trace w))
     (awaitCompletion textract job \<lparr>service = s, trace = tr\<rparr>)
   = map_option (\<lambda>(response, status, w). (response, status, trace w))
       (awaitCompletion (scripted (poll_answers textract job s)) job \<lparr>service = 0, trace = tr\<rparr>)"
proof -
  let ?f = "poll_answers textract job s"
  let ?b1 = "poll_again textract job" and ?s1 = "poll textract job \<lparr>service = s, trace = tr\<rparr>"
  let ?b2 = "poll_again (scripted ?f) job"
  let ?s2 = "poll (scripted ?f) job \<lparr>service = 0, trace = tr\<rparr>"
  have c: "\<And>k. in_progress ((?b1 ^^ k) ?s1) = in_progress ((?b2 ^^ k) ?s2)"
    by (simp only: poll_again_trace) (simp add: poll_again_any_funpow in_progress_def)
  show ?thesis
  proof (cases rule: while_loop_cases [of in_progress ?b1 ?s1])
    case (stops k)
    from stops(1,2) have "while_loop in_progress ?b2 ?s2 = Some ((?b2 ^^ k) ?s2)"
      by (intro while_loop_stops) (simp_all add: c)
    then have "while_loop in_progress ?b2 ?s2
               = Some (?f (0 + k), JobStatus (?f (0 + k)), polled job ?f 0 k tr)"
      by (simp only: poll_again_trace)
    with stops(3) show ?thesis
      by (simp add: awaitCompletion_def poll_again_any_funpow)
  next
    case diverges
    from diverges(1) have "while_loop in_progress ?b2 ?s2 = None"
      by (intro while_loop_diverges) (simp add: c)
    with diverges(2) show ?thesis
      by (simp add: awaitCompletion_def)
  qed
qed


lemma first_page_any:
  "first_page textract job \<lparr>service = m, trace = tr\<rparr>
   = ([fst (textract m job None)], NextToken (fst (textract m job None)),
      \<lparr>service = snd (textract m job None),
       trace = tr @ [Sleep 5, GetDocumentAnalysis job None]\<rparr>)"
  by (simp add: first_page_def sleep_def get_document_analysis_def split: prod.splits)

lemma next_page_any:
  "next_page textract job (pages, token, \<lparr>service = m, trace = tr\<rparr>)
   = (pages @ [fst (textract m job token)], NextToken (fst (textract m job token)),
      \<lparr>service = snd (textract m job token),
       trace = tr @ [Sleep 5, GetDocumentAnalysis job token,
                     Print (''Resultset page recieved: '' @ str (Suc (length pages)))]\<rparr>)"
  by (simp add: next_page_def sleep_def get_document_analysis_def print_def split: prod.splits)

lemma page_state_Suc:
  "page_state textract job s (Suc i)
   = (NextToken (page_answers textract job s i),
      snd (textract (snd (page_state textract job s i)) job (fst (page_state textract job s i))))"
  by (simp add: page_answers_def split: prod.splits)

declare page_state.simps(2) [simp del]

lemma next_page_any_funpow:
  "(next_page textract job ^^ k) (first_page textract job \<lparr>service = s, trace = tr\<rparr>)
   = (map (page_answers textract job s) [0..<Suc k],
      fst (page_state textract job s (Suc k)),
      \<lparr>service = snd (page_state textract job s (Suc k)),
       trace = trace (paged job (page_answers textract job s) 0 k tr)\<rparr>)"
proof (induction k)
  case 0
  show ?case
    by (simp add: first_page_any page_state_Suc page_answers_def paged_def)
next
  case (Suc k)
  have "(next_page textract job ^^ Suc k) (first_page textract job \<lparr>service = s, trace = tr\<rparr>)
        = next_page textract job
            (map (page_answers textract job s) [0..<Suc k],
             fst (page_state textract job s (Suc k)),
             \<lparr>service = snd (page_state textract job s (Suc k)),
              trace = trace (paged job (page_answers textract job s) 0 k tr)\<rparr>)"
    by (simp only: funpow.simps o_apply Suc.IH)
  also have "\<dots> = (map (page_answers textract job s) [0..<Suc (Suc k)],
      fst (page_state textract job s (Suc (Suc k))),
      \<lparr>service = snd (page_state textract job s (Suc (Suc k))),
       trace = trace (paged job (page_answers textract job s) 0 (Suc k) tr)\<rparr>)"
    unfolding next_page_any
    by (simp add: page_state_Suc page_answers_def [of _ _ _ "Suc k"] paged_def page_events_def)
  finally show ?case .
qed

lemma next_page_scripted_funpow:
  "(next_page (scripted f) job ^^ k) (first_page (scripted f) job \<lparr>service = 0, trace = tr\<rparr>)
   = (map f [0..<Suc k], NextToken (f k), paged job f 0 k tr)"
  using next_page_funpow
    [where f = f and job = job and k = k and n = 0
       and tr = "tr @ [Sleep 5, GetDocumentAnalysis job None]"]
  by (simp add: first_page_scripted paged_def del: upt_Suc)

lemma collectPages_any_service:
  "map_option (\<lambda>(pages, nextToken, w). (pages, nextToken, trace w))
     (collectPages textract job \<lparr>service = s, trace = tr\<rparr>)
   = map_option (\<lambda>(pages, nextToken, w). (pages, nextToken, trace w))
       (collectPages (scripted (page_answers textract job s)) job \<lparr>service = 0, trace = tr\<rparr>)"
proof -
  let ?f = "page_answers textract job s"
  let ?b1 = "next_page textract job" and ?s1 = "first_page textract job \<lparr>service = s, trace = tr\<rparr>"
  let ?b2 = "next_page (scripted ?f) job"
  let ?s2 = "first_page (scripted ?f) job \<lparr>service = 0, trace = tr\<rparr>"
  have c: "\<And>k. has_token ((?b1 ^^ k) ?s1) = has_token ((?b2 ^^ k) ?s2)"
    by (simp only: next_page_scripted_funpow)
       (simp add: next_page_any_funpow has_token_def page_state_Suc)
  show ?thesis
  proof (cases rule: while_loop_cases [of has_token ?b1 ?s1])
    case (stops k)
    from stops(1,2) have "while_loop has_token ?b2 ?s2 = Some ((?b2 ^^ k) ?s2)"
      by (intro while_loop_stops) (simp_all add: c)
    then have "while_loop has_token ?b2 ?s2
               = Some (map ?f [0..<Suc k], NextToken (?f k), paged job ?f 0 k tr)"
      by (simp only: next_page_scripted_funpow)
    with stops(3) show ?thesis
      by (simp add: collectPages_def next_page_any_funpow page_state_Suc del: upt_Suc)
  next
    case diverges
    from diverges(1) have "while_loop has_token ?b2 ?s2 = None"
      by (intro while_loop_diverges) (simp add: c)
    with diverges(2) show ?thesis
      by (simp add: collectPages_def)
  qed
qed

section \<open>The page parser\<close>

lemma parse_block_inv:
  assumes "parse_block b st = Inr st'" and "open_ok st"
  shows "open_ok st' \<and> flat st' = flat st @ [b]
         \<and> started st' = started st + page_starts [b]"
  using assms
  by (cases st)
     (auto simp: parse_block_def flush_def flat_def open_ok_def started_def page_starts_def
           split: if_splits option.splits)

lemma parse_blocks_inv:
  assumes "parse_blocks bs st = Inr st'" and "open_ok st"
  shows "open_ok st' \<and> flat st' = flat st @ bs
         \<and> started st' = started st + page_starts bs"
  using assms
proof (induction bs arbitrary: st)
  case Nil
  then show ?case by (simp add: page_starts_def)
next
  case (Cons b bs)
  from Cons.prems(1) obtain st1 where
    st1: "parse_block b st = Inr st1" and rest: "parse_blocks bs st1 = Inr st'"
    by (auto split: sum.splits)
  from parse_block_inv [OF st1 Cons.prems(2)] Cons.IH [OF rest]
  show ?case by (simp add: page_starts_def)
qed

lemma parse_responses_inv:
  assumes "parse_responses rs st = Inr st'" and "open_ok st"
  shows "open_ok st' \<and> flat st' = flat st @ concat (map Blocks rs)
         \<and> started st' = started st + page_starts (concat (map Blocks rs))"
  using assms
proof (induction rs arbitrary: st)
  case Nil
  then show ?case by (simp add: page_starts_def)
next
  case (Cons r rs)
  from Cons.prems(1) obtain st1 where
    st1: "parse_blocks (Blocks r) st = Inr st1" and rest: "parse_responses rs st1 = Inr st'"
    by (auto split: sum.splits)
  from parse_blocks_inv [OF st1 Cons.prems(2)] Cons.IH [OF rest]
  show ?case by (simp add: page_starts_def)
qed

lemma flush_flat: "open_ok st \<Longrightarrow> concat (flush st) = flat st \<and> length (flush st) = started st"
  by (cases st) (auto simp: flush_def flat_def open_ok_def started_def split: option.splits)

lemma page_blocks_Page [simp]: "page_blocks (Page bs) = bs"
  by (simp add: Page_def)

lemma Document_blocks:
  assumes "Document pages = Inr doc"
  shows "concat (map page_blocks doc) = concat (map Blocks pages)
         \<and> length doc = page_starts (concat (map Blocks pages))"
proof -
  from assms obtain st where st: "parse_responses pages ([], None) = Inr st"
    and doc: "doc = map Page (flush st)"
    by (auto simp: Document_def parseDocumentPages_def split: sum.splits)
  have "open_ok ([], None)" by (simp add: open_ok_def)
  from parse_responses_inv [OF st this] flush_flat [of st]
  show ?thesis
    by (simp add: doc flat_def started_def comp_def)
qed

lemma parse_block_open:
  "snd st \<noteq> None \<Longrightarrow> \<exists>st'. parse_block b st = Inr st' \<and> snd st' \<noteq> None"
  by (cases st) (auto simp: parse_block_def)

lemma parse_blocks_open:
  "snd st \<noteq> None \<Longrightarrow> \<exists>st'. parse_blocks bs st = Inr st' \<and> snd st' \<noteq> None"
proof (induction bs arbitrary: st)
  case Nil
  then show ?case by simp
next
  case (Cons b bs)
  from parse_block_open [OF Cons.prems, of b] obtain st1 where
    "parse_block b st = Inr st1" "snd st1 \<noteq> None" by blast
  with Cons.IH [of st1] show ?case by simp
qed

lemma parse_responses_open:
  "snd st \<noteq> None \<Longrightarrow> \<exists>st'. parse_responses rs st = Inr st' \<and> snd st' \<noteq> None"
proof (induction rs arbitrary: st)
  case Nil
  then show ?case by simp
next
  case (Cons r rs)
  from parse_blocks_open [OF Cons.prems, of "Blocks r"] obtain st1 where
    "parse_blocks (Blocks r) st = Inr st1" "snd st1 \<noteq> None" by blast
  with Cons.IH [of st1] show ?case by simp
qed

lemma parse_responses_start:
  assumes "concat (map Blocks rs) = [] \<or> BlockType (hd (concat (map Blocks rs))) = ''PAGE''"
  shows "\<exists>st'. parse_responses rs ([], None) = Inr st'"
  using assms
proof (induction rs)
  case Nil
  then show ?case by simp
next
  case (Cons r rs)
  show ?case
  proof (cases "Blocks r")
    case Nil
    with Cons show ?thesis by simp
  next
    case (Cons b bs)
    with Cons.prems have "BlockType b = ''PAGE''" by simp
    then have "parse_block b ([], None) = Inr ([], Some [b])"
      by (simp add: parse_block_def flush_def)
    moreover obtain st1 where "parse_blocks bs ([], Some [b]) = Inr st1" "snd st1 \<noteq> None"
      using parse_blocks_open [of "([], Some [b])" bs] by auto
    moreover obtain st2 where "parse_responses rs st1 = Inr st2"
      using parse_responses_open [of st1 rs] \<open>snd st1 \<noteq> None\<close> by auto
    ultimately show ?thesis
      using Cons by simp
  qed
qed

lemma Document_succeeds:
  assumes "concat (map Blocks rs) = [] \<or> BlockType (hd (concat (map Blocks rs))) = ''PAGE''"
  shows "\<exists>doc. Document rs = Inr doc"
  using parse_responses_start [OF assms]
  by (auto simp: Document_def parseDocumentPages_def)

lemma parse_page_text_lines: "parse_page_text blocks acc = acc @ lines_of blocks"
  by (induction blocks arbitrary: acc) (simp_all add: lines_of_def line_text_def)

lemma page_text_Page: "page_text (Page blocks) = lines_of blocks"
  by (simp add: Page_def parse_page_text_lines)

lemma Document_page_text:
  assumes "Document pages = Inr doc"
  shows "map page_text doc = map (\<lambda>page. lines_of (page_blocks page)) doc"
proof -
  from assms obtain documentPages where "doc = map Page documentPages"
    by (auto simp: Document_def split: sum.splits)
  then show ?thesis
    by (simp add: page_text_Page)
qed

lemma print_pages_trace:
  "print_pages BOLD END doc idx w
   = (idx + length doc,
      w\<lparr>trace := trace w
          @ map (\<lambda>(idx, page).
                   Print (BOLD @ ''Results from page '' @ str idx @ '': '' @ [CHR 0x0A] @ END
                            @ '' '' @ page_text page))
              (zip [idx..<idx + length doc] doc)\<rparr>)"
proof (induction doc arbitrary: idx w)
  case Nil
  show ?case by simp
next
  case (Cons page doc)
  have "[idx..<idx + length (page # doc)] = idx # [Suc idx..<Suc idx + length doc]"
    by (simp add: upt_rec)
  then show ?case
    by (simp add: Cons.IH print_def)
qed

lemma aggregateText_run:
  assumes "Document pages = Inr doc"
  shows "aggregateText BOLD END pages w
         = (Inr (doc, Suc (length doc)), w\<lparr>trace := trace w @ printed BOLD END doc\<rparr>)"
  using assms
  by (simp add: aggregateText_def print_pages_trace print_def printed_def)

section \<open>Chunking\<close>

lemma py_range_length:
  "0 < step \<Longrightarrow> length (py_range start stop step) = (stop - start + step - 1) div step"
proof (induction start stop step rule: py_range.induct)
  case (1 start stop step)
  show ?case
  proof (cases "stop \<le> start")
    case True
    with "1.prems" show ?thesis
      by (simp add: py_range.simps [of start stop step])
  next
    case False
    with "1.prems" have ih:
      "length (py_range (start + step) stop step) = (stop - (start + step) + step - 1) div step"
      using "1.IH" by simp
    show ?thesis
    proof (cases "stop \<le> start + step")
      case True
      with False "1.prems" have "(stop - start + step - 1) div step = 1"
        by (intro div_nat_eqI) auto
      with True False "1.prems" ih show ?thesis
        by (simp add: py_range.simps [of start stop step])
    next
      case False
      define k where "k = stop - (start + step) + step - 1"
      from False have "stop - start + step - 1 = k + step"
        by (simp add: k_def)
      moreover have "(k + step) div step = k div step + 1"
        using "1.prems" by simp
      ultimately have "(stop - start + step - 1) div step
                 = (stop - (start + step) + step - 1) div step + 1"
        by (simp add: k_def)
      with False "1.prems" ih show ?thesis
        by (simp add: py_range.simps [of start stop step])
    qed
  qed
qed

lemma chunks_concat_from:
  "0 < m \<Longrightarrow>
   concat (map (\<lambda>i. py_slice s (0 + i) (m + i)) (py_range start (length s) m)) = drop start s"
proof (induction start "length s" m rule: py_range.induct)
  case (1 start step)
  show ?case
  proof (cases "length s \<le> start")
    case True
    then show ?thesis
      by (simp add: py_range.simps [of start "length s" step])
  next
    case False
    with "1.prems" have
      "concat (map (\<lambda>i. py_slice s (0 + i) (step + i)) (py_range (start + step) (length s) step))
       = drop (start + step) s"
      using "1.hyps" by simp
    moreover have "take step (drop start s) @ drop (start + step) s = drop start s"
      by (metis add.commute append_take_drop_id drop_drop)
    ultimately show ?thesis
      using False "1.prems"
      by (simp add: py_range.simps [of start "length s" step] py_slice_def)
  qed
qed

lemma chunks_sizes:
  "c \<in> set (chunks m s) \<Longrightarrow> length c \<le> m"
  by (auto simp: chunks_def py_slice_def)

section \<open>Double-precision split points\<close>

lemma bit_length_le: "n < 2 ^ k \<Longrightarrow> bit_length n \<le> k"
proof (induction k arbitrary: n)
  case 0
  then show ?case by (simp add: bit_length.simps)
next
  case (Suc k)
  from Suc.prems have "n div 2 < 2 ^ k" by simp
  from Suc.IH [OF this] show ?case
    by (simp add: bit_length.simps [of n])
qed

lemma round_half_even_lower: "x div 2 ^ s * 2 ^ s \<le> round_half_even s x"
  by (simp add: round_half_even_def Let_def)

lemma round_half_even_upper: "2 * round_half_even s x \<le> 2 * x + 2 ^ s"
proof -
  define q r where "q = x div 2 ^ s" and "r = x mod 2 ^ s"
  have x: "x = q * 2 ^ s + r"
    unfolding q_def r_def by (rule div_mult_mod_eq [symmetric])
  show ?thesis
  proof (cases "2 * r < 2 ^ s \<or> (2 * r = 2 ^ s \<and> even q)")
    case True
    then have "round_half_even s x = q * 2 ^ s"
      by (simp add: round_half_even_def Let_def q_def r_def)
    with x show ?thesis by simp
  next
    case False
    then have r: "2 ^ s \<le> 2 * r" by auto
    from False have "round_half_even s x = (q + 1) * 2 ^ s"
      by (simp add: round_half_even_def Let_def q_def r_def)
    with x r show ?thesis by (simp add: algebra_simps)
  qed
qed

lemma to_double_exact: "n < 2 ^ 53 \<Longrightarrow> to_double n = n"
  using bit_length_le [of n 53]
  by (simp add: to_double_def round_half_even_def)

lemma int_times_floor:
  fixes c d m n :: nat
  assumes dm: "d * m = c * 2 ^ 53 + 2" and cd: "c < d" and d10: "d \<le> 10"
    and n: "n < 2 ^ 50"
  shows "int_times n m = (c * n) div d"
proof -
  define B :: nat where "B = 2 ^ 53"
  have Bpos: "0 < B" by (simp add: B_def)
  have dpos: "0 < d" using cd by simp
  have "d * m < d * B"
  proof -
    have "c * B + 2 < (c + 1) * B" by (simp add: B_def)
    also have "\<dots> \<le> d * B" using cd by (intro mult_right_mono) simp_all
    finally show ?thesis using dm by (simp add: B_def)
  qed
  then have m: "m < B" by simp
  have tdn: "to_double n = n"
    using n by (intro to_double_exact) (rule less_trans, assumption, simp)
  define N where "N = n * m"
  define s where "s = bit_length N - 53"
  define P :: nat where "P = 2 ^ s"
  define R where "R = round_half_even s N"
  have "to_double N = R"
    by (simp add: to_double_def R_def s_def)
  moreover have "int_times n m = to_double N div B"
    by (simp add: int_times_def tdn N_def B_def)
  ultimately have val: "int_times n m = R div B"
    by simp
  have "N \<le> n * B" using m by (simp add: N_def)
  also have "n * B < 2 ^ 50 * B" using n Bpos by simp
  finally have "N < 2 ^ 103" by (simp add: B_def)
  then have "bit_length N \<le> 103" by (rule bit_length_le)
  then have s50: "s \<le> 50" by (simp add: s_def)
  then have P50: "P \<le> 2 ^ 50"
    unfolding P_def by (intro power_increasing) simp_all
  have Ppos: "0 < P" by (simp add: P_def)
  have "P dvd B"
    unfolding P_def B_def using s50 by (intro le_imp_power_dvd) simp
  then obtain t where t: "B = P * t" by (auto simp: dvd_def)
  define k j where "k = (c * n) div d" and "j = (c * n) mod d"
  have cn: "c * n = d * k + j" by (simp add: k_def j_def)
  have jd: "j + 1 \<le> d" using dpos by (simp add: j_def Suc_le_eq)
  have "d * N = n * (d * m)" by (simp add: N_def)
  also have "\<dots> = (c * n) * B + 2 * n" by (simp add: dm B_def algebra_simps)
  also have "\<dots> = d * (k * B) + j * B + 2 * n" by (simp add: cn algebra_simps)
  finally have dN: "d * N = d * (k * B) + j * B + 2 * n" .
  then have "d * (k * B) \<le> d * N" by simp
  then have lower: "k * B \<le> N" using dpos by simp
  then have "(k * t) * P \<le> N" by (simp add: t mult_ac)
  then have "k * t \<le> N div P" using Ppos by (simp add: less_eq_div_iff_mult_less_eq)
  then have "(k * t) * P \<le> N div P * P" by (rule mult_right_mono) simp
  then have "k * B \<le> N div P * P" by (simp add: t mult_ac)
  also have "\<dots> \<le> R" unfolding R_def P_def by (rule round_half_even_lower)
  finally have R_lower: "k * B \<le> R" .
  have "2 * R \<le> 2 * N + P" unfolding R_def P_def by (rule round_half_even_upper)
  then have "d * (2 * R) \<le> d * (2 * N + P)" by (rule mult_left_mono) simp
  also have "\<dots> = 2 * (d * N) + d * P" by (simp add: algebra_simps)
  also have "\<dots> = 2 * (d * (k * B)) + 2 * (j * B) + 4 * n + d * P" by (simp add: dN)
  also have "\<dots> < 2 * (d * (k * B)) + 2 * (d * B)"
  proof -
    have "(j + 1) * B \<le> d * B" using jd by (rule mult_right_mono) simp
    then have a: "2 * (j * B) + 2 * B \<le> 2 * (d * B)" by (simp add: algebra_simps)
    have "d * P \<le> 10 * 2 ^ 50" using d10 P50 by (rule mult_mono) simp_all
    moreover have "4 * n < 4 * 2 ^ 50" using n by simp
    ultimately have "4 * n + d * P < 2 * B" by (simp add: B_def)
    with a show ?thesis by linarith
  qed
  also have "\<dots> = d * (2 * (Suc k * B))" by (simp add: algebra_simps)
  finally have "2 * R < 2 * (Suc k * B)" using dpos by simp
  then have R_upper: "R < Suc k * B" by simp
  from R_lower R_upper have "R div B = k"
    by (intro div_nat_eqI) (simp_all add: mult.commute)
  with val show ?thesis by (simp add: k_def)
qed



lemma round_half_even_below: "2 * x \<le> 2 * round_half_even s x + 2 ^ s"
proof -
  define q r where "q = x div 2 ^ s" and "r = x mod 2 ^ s"
  have x: "x = q * 2 ^ s + r"
    unfolding q_def r_def by (rule div_mult_mod_eq [symmetric])
  have r: "r < 2 ^ s"
    by (simp add: r_def)
  show ?thesis
  proof (cases "2 * r < 2 ^ s \<or> (2 * r = 2 ^ s \<and> even q)")
    case True
    then have "round_half_even s x = q * 2 ^ s"
      by (simp add: round_half_even_def Let_def q_def r_def)
    moreover from True have "2 * r \<le> 2 ^ s" by auto
    ultimately show ?thesis using x by simp
  next
    case False
    then have "round_half_even s x = (q + 1) * 2 ^ s"
      by (simp add: round_half_even_def Let_def q_def r_def)
    with x r show ?thesis by (simp add: algebra_simps)
  qed
qed

lemma bit_length_lower: "0 < x \<Longrightarrow> 2 ^ (bit_length x - 1) \<le> x"
proof (induction x rule: bit_length.induct)
  case (1 n)
  show ?case
  proof (cases "n div 2 = 0")
    case True
    with "1.prems" show ?thesis
      by (simp add: bit_length.simps [of n] bit_length.simps [of 0])
  next
    case False
    with "1.IH" "1.prems" have ih: "2 ^ (bit_length (n div 2) - 1) \<le> n div 2"
      by simp
    from False have "0 < bit_length (n div 2)"
      by (simp add: bit_length.simps [of "n div 2"])
    then have "(2::nat) ^ bit_length (n div 2) = 2 * 2 ^ (bit_length (n div 2) - 1)"
      by (cases "bit_length (n div 2)") simp_all
    also have "\<dots> \<le> 2 * (n div 2)" using ih by simp
    also have "\<dots> \<le> n" by simp
    finally show ?thesis
      using "1.prems" by (simp add: bit_length.simps [of n])
  qed
qed

lemma to_double_bounds:
  "2 ^ 53 * to_double x \<le> (2 ^ 53 + 1) * x"
  "(2 ^ 53 - 1) * x \<le> 2 ^ 53 * to_double x"
proof -
  define s where "s = bit_length x - 53"
  define R where "R = round_half_even s x"
  have R: "to_double x = R" by (simp add: to_double_def R_def s_def)
  have P: "2 ^ 52 * 2 ^ s \<le> x \<or> (s = 0 \<and> R = x)"
  proof (cases "s = 0")
    case True
    then show ?thesis by (simp add: R_def round_half_even_def)
  next
    case False
    then have "0 < x" and "bit_length x - 1 = 52 + s"
      by (auto simp: s_def bit_length.simps [of 0] intro: gr0I)
    with bit_length_lower [of x] show ?thesis
      by (simp add: power_add)
  qed
  have up: "2 * R \<le> 2 * x + 2 ^ s" and lo: "2 * x \<le> 2 * R + 2 ^ s"
    unfolding R_def by (rule round_half_even_upper, rule round_half_even_below)
  show "2 ^ 53 * to_double x \<le> (2 ^ 53 + 1) * x"
  proof -
    from up have "2 ^ 52 * (2 * R) \<le> 2 ^ 52 * (2 * x + 2 ^ s)"
      by (rule mult_left_mono) simp
    then have "2 ^ 53 * R \<le> 2 ^ 53 * x + 2 ^ 52 * 2 ^ s"
      by (simp add: algebra_simps)
    with P show ?thesis
      unfolding R by (auto simp: algebra_simps)
  qed
  show "(2 ^ 53 - 1) * x \<le> 2 ^ 53 * to_double x"
  proof -
    from lo have "2 ^ 52 * (2 * x) \<le> 2 ^ 52 * (2 * R + 2 ^ s)"
      by (rule mult_left_mono) simp
    then have "2 ^ 53 * x \<le> 2 ^ 53 * R + 2 ^ 52 * 2 ^ s"
      by (simp add: algebra_simps)
    with P have "2 ^ 53 * x \<le> 2 ^ 53 * R + x"
      by auto
    then show ?thesis
      unfolding R by (simp add: algebra_simps)
  qed
qed

lemma split_points:
  "int_times n double_0_8 \<le> int_times n double_0_9"
  "int_times n double_0_9 \<le> n"
proof -
  define n' where "n' = to_double n"
  define R8 where "R8 = to_double (n' * double_0_8)"
  define R9 where "R9 = to_double (n' * double_0_9)"
  have "2 ^ 53 * R8 \<le> (2 ^ 53 + 1) * (n' * double_0_8)"
    unfolding R8_def by (rule to_double_bounds)
  also have "\<dots> = ((2 ^ 53 + 1) * double_0_8) * n'"
    by (simp add: mult_ac)
  also have "\<dots> \<le> ((2 ^ 53 - 1) * double_0_9) * n'"
    by (rule mult_right_mono) (simp_all add: double_0_8_def double_0_9_def)
  also have "\<dots> = (2 ^ 53 - 1) * (n' * double_0_9)"
    by (simp add: mult_ac)
  also have "\<dots> \<le> 2 ^ 53 * R9"
    unfolding R9_def by (rule to_double_bounds)
  finally have "R8 \<le> R9" by simp
  then show "int_times n double_0_8 \<le> int_times n double_0_9"
    unfolding int_times_def n'_def [symmetric] R8_def [symmetric] R9_def [symmetric]
    by (rule div_le_mono)
  have "2 ^ 53 * (2 ^ 53 * R9) \<le> 2 ^ 53 * ((2 ^ 53 + 1) * (n' * double_0_9))"
    unfolding R9_def by (intro mult_left_mono to_double_bounds) simp
  also have "\<dots> = ((2 ^ 53 + 1) * double_0_9) * (2 ^ 53 * n')"
    by (simp add: mult_ac)
  also have "\<dots> \<le> ((2 ^ 53 + 1) * double_0_9) * ((2 ^ 53 + 1) * n)"
    unfolding n'_def by (intro mult_left_mono to_double_bounds) simp
  also have "\<dots> = ((2 ^ 53 + 1) * double_0_9 * (2 ^ 53 + 1)) * n"
    by (simp add: mult_ac)
  also have "\<dots> \<le> (2 ^ 53 * 2 ^ 53 * 2 ^ 53) * n"
    by (rule mult_right_mono) (simp_all add: double_0_9_def)
  also have "\<dots> = 2 ^ 53 * (2 ^ 53 * (2 ^ 53 * n))"
    by (simp add: mult_ac)
  finally have "R9 \<le> 2 ^ 53 * n" by simp
  then have "R9 div 2 ^ 53 \<le> (2 ^ 53 * n) div 2 ^ 53"
    by (rule div_le_mono)
  then show "int_times n double_0_9 \<le> n"
    unfolding int_times_def n'_def [symmetric] R9_def [symmetric] by simp
qed

lemma first_80_floor: "n < 2 ^ 50 \<Longrightarrow> int_times n double_0_8 = 4 * n div 5"
  by (rule int_times_floor) (simp_all add: double_0_8_def)

lemma next_10_floor: "n < 2 ^ 50 \<Longrightarrow> int_times n double_0_9 = 9 * n div 10"
  by (rule int_times_floor) (simp_all add: double_0_9_def)

lemma floor_0_8: "\<lfloor>0.8 * real n\<rfloor> = int (4 * n div 5)"
proof -
  have "0.8 * real n = real (4 * n) / real 5" by simp
  then show ?thesis by (simp only: floor_divide_of_nat_eq)
qed

lemma floor_0_9: "\<lfloor>0.9 * real n\<rfloor> = int (9 * n div 10)"
proof -
  have "0.9 * real n = real (9 * n) / real 10" by simp
  then show ?thesis by (simp only: floor_divide_of_nat_eq)
qed

lemma np_split_parts:
  assumes "i \<le> j" and "j \<le> length ary"
  shows "np_split ary i j = (take i ary, take (j - i) (drop i ary), drop j ary)"
    and "take i ary @ take (j - i) (drop i ary) @ drop j ary = ary"
proof -
  show "np_split ary i j = (take i ary, take (j - i) (drop i ary), drop j ary)"
    by (simp add: np_split_def py_slice_def)
  have "take i ary @ take (j - i) (drop i ary) = take (i + (j - i)) ary"
    by (simp only: take_add)
  with assms(1) have "take i ary @ take (j - i) (drop i ary) = take j ary"
    by simp
  then show "take i ary @ take (j - i) (drop i ary) @ drop j ary = ary"
    by (metis append.assoc append_take_drop_id)
qed

text \<open>
  The split points never cross and never pass the end of the list, whatever the
  length, so the three slices always partition the shuffled list; below \<open>2 ^ 50\<close>
  the split points are the exact floors.
\<close>

lemma split_cell_partition:
  fixes sample_annos :: "('k::linorder \<times> 'v) list"
  assumes "distinct (map fst sample_annos)"
    and "\<And>xs :: 'k list. mset (shuffle xs) = mset xs"
  shows "mset (image_ids (split_cell shuffle sample_annos)) = mset (map fst sample_annos)
       \<and> train_ids (split_cell shuffle sample_annos) @ val_ids (split_cell shuffle sample_annos)
           @ test_ids (split_cell shuffle sample_annos)
         = image_ids (split_cell shuffle sample_annos)
       \<and> set (train_ids (split_cell shuffle sample_annos))
           \<inter> set (val_ids (split_cell shuffle sample_annos)) = {}
       \<and> set (train_ids (split_cell shuffle sample_annos))
           \<inter> set (test_ids (split_cell shuffle sample_annos)) = {}
       \<and> set (val_ids (split_cell shuffle sample_annos))
           \<inter> set (test_ids (split_cell shuffle sample_annos)) = {}
       \<and> length (train_ids (split_cell shuffle sample_annos))
         = int_times (length sample_annos) double_0_8
       \<and> length (val_ids (split_cell shuffle sample_annos))
         = int_times (length sample_annos) double_0_9 - int_times (length sample_annos) double_0_8
       \<and> length (test_ids (split_cell shuffle sample_annos))
         = length sample_annos - int_times (length sample_annos) double_0_9
       \<and> (length sample_annos < 2 ^ 50 \<longrightarrow>
            int (int_times (length sample_annos) double_0_8)
              = \<lfloor>0.8 * real (length sample_annos)\<rfloor>
          \<and> int (int_times (length sample_annos) double_0_9)
              = \<lfloor>0.9 * real (length sample_annos)\<rfloor>)"
proof -
  define n where "n = length sample_annos"
  define ids where "ids = shuffle (sort (map fst sample_annos))"
  define a b where "a = int_times n double_0_8" and "b = int_times n double_0_9"
  have ms: "mset ids = mset (map fst sample_annos)"
    by (simp add: ids_def assms(2))
  then have len: "length ids = n"
    unfolding n_def by (metis length_map size_mset)
  from ms assms(1) have dist: "distinct ids"
    by (metis mset_eq_imp_distinct_iff)
  have ab: "a \<le> b" and bn: "b \<le> n"
    unfolding a_def b_def by (rule split_points)+
  have parts: "np_split ids a b = (take a ids, take (b - a) (drop a ids), drop b ids)"
    and cat: "take a ids @ take (b - a) (drop a ids) @ drop b ids = ids"
    using np_split_parts [of a b ids] ab bn len by simp_all
  have cell: "split_cell shuffle sample_annos
     = \<lparr>image_ids = ids, train_ids = take a ids, val_ids = take (b - a) (drop a ids),
        test_ids = drop b ids\<rparr>"
    by (simp add: split_cell_def Let_def ids_def [symmetric] len a_def [symmetric]
        b_def [symmetric] parts)
  have "distinct (take a ids @ take (b - a) (drop a ids) @ drop b ids)"
    using dist by (simp only: cat)
  then have disj: "set (take a ids) \<inter> set (take (b - a) (drop a ids)) = {}"
    "set (take a ids) \<inter> set (drop b ids) = {}"
    "set (take (b - a) (drop a ids)) \<inter> set (drop b ids) = {}"
    by (simp_all only: distinct_append set_append Int_Un_distrib) blast+
  have la: "length (take a ids) = a" using ab bn len by simp
  have lb: "length (take (b - a) (drop a ids)) = b - a" using ab bn len by simp
  have lc: "length (drop b ids) = n - b" using len by simp
  have fl: "n < 2 ^ 50 \<longrightarrow> int a = \<lfloor>0.8 * real n\<rfloor> \<and> int b = \<lfloor>0.9 * real n\<rfloor>"
    unfolding floor_0_8 floor_0_9 a_def b_def
    by (simp add: first_80_floor next_10_floor)
  show ?thesis
    unfolding cell n_def [symmetric] a_def [symmetric] b_def [symmetric]
    using ms cat disj la lb lc fl
    by simp
qed

text \<open>
  The bound \<open>2 ^ 50\<close> is where the doubles near \<open>0.9 n\<close> become \<open>1 / 8\<close> apart: from
  there on a product ending in \<open>.9\<close> can round up to the next integer.
\<close>

lemma int_times_beyond_bound:
  "int_times 1250999896491811 double_0_9 = 1125899906842630
   \<and> 9 * 1250999896491811 div 10 = (1125899906842629 :: nat)"
  by (simp add: int_times_def to_double_def round_half_even_def double_0_9_def
      bit_length.simps Let_def)

section \<open>The claims\<close>

subsection \<open>C1: the pages of the aggregate document\<close>

text \<open>
  Claim C1, as amended. For every completed job, once the token chain has ended after
  \<open>k + 1\<close> responses, the collection cell returns exactly these responses, in the
  order the service gave them, and the document parsed from them keeps that order:
  the blocks of its pages, concatenated, are the blocks of the responses,
  concatenated. The number of pages of the document is the number of \<^verbatim>\<open>PAGE\<close>
  blocks in the responses, that is the number of pages of the source document; it is
  not the number of responses received. The parser succeeds whenever the first block,
  if there is one, is a \<^verbatim>\<open>PAGE\<close> block.
\<close>

theorem document_pages_follow_page_blocks:
  assumes "\<And>i. i < k \<Longrightarrow> truthy (NextToken (f (n + i)))"
    and "\<not> truthy (NextToken (f (n + k)))"
    and "pages = map (\<lambda>i. f (n + i)) [0..<Suc k]"
    and "concat (map Blocks pages) = [] \<or> BlockType (hd (concat (map Blocks pages))) = ''PAGE''"
  shows "collectPages (scripted f) job \<lparr>service = n, trace = tr\<rparr>
           = Some (pages, NextToken (f (n + k)), paged job f n k tr)
         \<and> (\<exists>doc. Document pages = Inr doc
                \<and> concat (map page_blocks doc) = concat (map Blocks pages)
                \<and> length doc = page_starts (concat (map Blocks pages)))"
proof -
  have "collectPages (scripted f) job \<lparr>service = n, trace = tr\<rparr>
        = Some (pages, NextToken (f (n + k)), paged job f n k tr)"
    using collectPages_scripted [of k f n job tr] assms(1,2)
    by (simp add: assms(3) paged_def del: upt_Suc)
  moreover from Document_succeeds [OF assms(4)] obtain doc where "Document pages = Inr doc"
    by blast
  moreover note Document_blocks [OF this]
  ultimately show ?thesis by blast
qed

text \<open>
  Two responses holding a document of two pages, the second page beginning in the
  middle of the second response.
\<close>

theorem document_pages_follow_page_blocks_witness:
  "collectPages
     (scripted (\<lambda>i. if i = 0
                     then answer ''SUCCEEDED'' None (Some ''t1'') [page_start ''p1'', text_line ''A'']
                     else answer ''SUCCEEDED'' None None [text_line ''B'', page_start ''p2'', text_line ''C'']))
     ''job'' \<lparr>service = 0, trace = []\<rparr>
   = Some ([answer ''SUCCEEDED'' None (Some ''t1'') [page_start ''p1'', text_line ''A''],
            answer ''SUCCEEDED'' None None [text_line ''B'', page_start ''p2'', text_line ''C'']],
           None,
           \<lparr>service = 2,
            trace = [Sleep 5, GetDocumentAnalysis ''job'' None,
                     Sleep 5, GetDocumentAnalysis ''job'' (Some ''t1''),
                     Print ''Resultset page recieved: 2'']\<rparr>)
   \<and> Document [answer ''SUCCEEDED'' None (Some ''t1'') [page_start ''p1'', text_line ''A''],
               answer ''SUCCEEDED'' None None [text_line ''B'', page_start ''p2'', text_line ''C'']]
     = Inr [Page [page_start ''p1'', text_line ''A'', text_line ''B''],
            Page [page_start ''p2'', text_line ''C'']]"
  using document_pages_follow_page_blocks
    [of 1 "\<lambda>i. if i = 0
                then answer ''SUCCEEDED'' None (Some ''t1'') [page_start ''p1'', text_line ''A'']
                else answer ''SUCCEEDED'' None None [text_line ''B'', page_start ''p2'', text_line ''C'']"
        0 "[answer ''SUCCEEDED'' None (Some ''t1'') [page_start ''p1'', text_line ''A''],
            answer ''SUCCEEDED'' None None [text_line ''B'', page_start ''p2'', text_line ''C'']]"
        "''job''" "[]"]
  by (simp add: truthy_def answer_def paged_def page_events_def str.simps digit_def
      page_start_def text_line_def Document_def parseDocumentPages_def parse_block_def flush_def)

text \<open>
  The claim as stated fails on the run the notebook records: one response holding two
  pages is collected as one element of \<^verbatim>\<open>pages\<close> and parsed into a document of two
  pages.
\<close>

theorem page_count_counterexample:
  "collectPages (scripted (\<lambda>i. two_page_answer)) ''job'' \<lparr>service = 0, trace = []\<rparr>
   = Some ([two_page_answer], None,
           \<lparr>service = 1, trace = [Sleep 5, GetDocumentAnalysis ''job'' None]\<rparr>)
   \<and> Document [two_page_answer]
     = Inr [Page [page_start ''p1'', text_line ''Admission''],
            Page [page_start ''p2'', text_line ''Discharge'']]
   \<and> length [two_page_answer] = 1
   \<and> length [Page [page_start ''p1'', text_line ''Admission''],
              Page [page_start ''p2'', text_line ''Discharge'']] = 2"
  using collectPages_scripted [of 0 "\<lambda>i. two_page_answer" 0 "''job''" "[]"]
  by (simp add: two_page_answer_def truthy_def page_start_def text_line_def Document_def
      parseDocumentPages_def parse_block_def flush_def)

subsection \<open>C2: the continuation-token chain\<close>

text \<open>
  Claim C2. The collection cell follows the continuation-token chain. Against every
  sequence of answers whose first \<open>k\<close> tokens are present and non-empty and whose
  next answer carries no token (or an empty one), it returns after exactly \<open>k + 1\<close>
  requests with these \<open>k + 1\<close> answers in order; it sleeps five seconds before every
  request; the first request carries no token and request \<open>i + 1\<close> carries exactly
  the token of answer \<open>i\<close>; no request follows the answer without a token.
\<close>

theorem collectPages_follows_token_chain:
  assumes "\<And>i. i < k \<Longrightarrow> truthy (NextToken (f (n + i)))"
    and "\<not> truthy (NextToken (f (n + k)))"
  shows "collectPages (scripted f) job \<lparr>service = n, trace = tr\<rparr>
         = Some (map (\<lambda>i. f (n + i)) [0..<Suc k], NextToken (f (n + k)),
             \<lparr>service = Suc (n + k),
              trace = tr @ [Sleep 5, GetDocumentAnalysis job None]
                      @ concat (map (page_events job f n) [0..<k])\<rparr>)
         \<and> requests ([Sleep 5, GetDocumentAnalysis job None]
                      @ concat (map (page_events job f n) [0..<k]))
           = None # map (\<lambda>i. NextToken (f (n + i))) [0..<k]"
  using collectPages_scripted [of k f n job tr, OF assms]
  by (simp add: requests_page_events del: upt_Suc)

text \<open>
  The scenario of the specification: pages \<open>A\<close> and \<open>B\<close>, the first with token
  \<open>t1\<close>, the second with none. The cell returns both in that order after two
  requests.
\<close>

theorem collectPages_follows_token_chain_witness:
  "collectPages
     (scripted (\<lambda>i. if i = 0 then answer ''SUCCEEDED'' None (Some ''t1'') [text_line ''A'']
                     else answer ''SUCCEEDED'' None None [text_line ''B'']))
     ''job'' \<lparr>service = 0, trace = []\<rparr>
   = Some ([answer ''SUCCEEDED'' None (Some ''t1'') [text_line ''A''],
            answer ''SUCCEEDED'' None None [text_line ''B'']],
           None,
           \<lparr>service = 2,
            trace = [Sleep 5, GetDocumentAnalysis ''job'' None,
                     Sleep 5, GetDocumentAnalysis ''job'' (Some ''t1''),
                     Print ''Resultset page recieved: 2'']\<rparr>)
   \<and> requests [Sleep 5, GetDocumentAnalysis ''job'' None,
                Sleep 5, GetDocumentAnalysis ''job'' (Some ''t1''),
                Print ''Resultset page recieved: 2'']
     = [None, Some ''t1'']"
  using collectPages_follows_token_chain
    [of 1 "\<lambda>i. if i = 0 then answer ''SUCCEEDED'' None (Some ''t1'') [text_line ''A'']
                else answer ''SUCCEEDED'' None None [text_line ''B'']" 0 "''job''" "[]"]
  by (simp add: truthy_def answer_def page_events_def str.simps digit_def)

subsection \<open>C3: a job that fails\<close>

text \<open>
  Claim C3, as amended. For every job whose status poll returns \<^verbatim>\<open>FAILED\<close> after
  \<open>k\<close> polls that returned \<^verbatim>\<open>IN_PROGRESS\<close>, the status loop raises nothing: it
  stops polling at that response and exits normally with \<^verbatim>\<open>status\<close> equal to
  \<^verbatim>\<open>FAILED\<close>. The reason the service reports stays in \<^verbatim>\<open>response\<close>, unread.
\<close>

theorem awaitCompletion_returns_FAILED:
  assumes "\<And>i. i < k \<Longrightarrow> JobStatus (f (n + i)) = ''IN_PROGRESS''"
    and "JobStatus (f (n + k)) = ''FAILED''"
  shows "awaitCompletion (scripted f) job \<lparr>service = n, trace = tr\<rparr>
         = Some (f (n + k), ''FAILED'', polled job f n k tr)"
  using awaitCompletion_scripted [of k f n job tr] assms
  by (simp add: polled_def)

theorem awaitCompletion_returns_FAILED_witness:
  "awaitCompletion
     (scripted (\<lambda>i. if i < 2 then answer ''IN_PROGRESS'' None None []
                     else answer ''FAILED'' (Some ''INVALID_DOCUMENT'') None []))
     ''job'' \<lparr>service = 0, trace = []\<rparr>
   = Some (answer ''FAILED'' (Some ''INVALID_DOCUMENT'') None [], ''FAILED'',
           \<lparr>service = 3,
            trace = [Sleep 5, GetDocumentAnalysis ''job'' None,
                     Sleep 5, GetDocumentAnalysis ''job'' None,
                     Print ''Textract Job status: IN_PROGRESS'',
                     Sleep 5, GetDocumentAnalysis ''job'' None,
                     Print ''Textract Job status: FAILED'']\<rparr>)"
  using awaitCompletion_returns_FAILED
    [of 2 "\<lambda>i. if i < 2 then answer ''IN_PROGRESS'' None None []
                else answer ''FAILED'' (Some ''INVALID_DOCUMENT'') None []" 0 "''job''" "[]"]
  by (simp add: answer_def polled_def poll_events_def upt_rec)

text \<open>
  The scenario of the specification, a service reporting \<^verbatim>\<open>FAILED\<close> with the reason
  \<^verbatim>\<open>INVALID_DOCUMENT\<close>: the cell returns normally after its first request.
\<close>

theorem awaitCompletion_FAILED_counterexample:
  "awaitCompletion
     (scripted (\<lambda>i. answer ''FAILED'' (Some ''INVALID_DOCUMENT'') None []))
     ''job'' \<lparr>service = 0, trace = []\<rparr>
   = Some (answer ''FAILED'' (Some ''INVALID_DOCUMENT'') None [], ''FAILED'',
           \<lparr>service = 1, trace = [Sleep 5, GetDocumentAnalysis ''job'' None]\<rparr>)"
  using awaitCompletion_scripted
    [of 0 "\<lambda>i. answer ''FAILED'' (Some ''INVALID_DOCUMENT'') None []" 0 "''job''" "[]"]
  by (simp add: answer_def)

subsection \<open>C4: a job that stays in progress\<close>

text \<open>
  Claim C4, as amended. The status loop has no \<^verbatim>\<open>maxWait\<close> and no timeout. For
  every job that the service never reports as anything but \<^verbatim>\<open>IN_PROGRESS\<close>, the
  loop never exits: after every number \<open>k\<close> of turns the status is still
  \<^verbatim>\<open>IN_PROGRESS\<close> and \<open>k + 1\<close> polls have been issued, so no number of polls bounds
  the loop. The remote job is left alone: the requests are status polls only.
\<close>

theorem awaitCompletion_polls_forever:
  assumes "\<And>i. JobStatus (f (n + i)) = ''IN_PROGRESS''"
  shows "awaitCompletion (scripted f) job \<lparr>service = n, trace = tr\<rparr> = None
         \<and> (\<forall>k. (poll_again (scripted f) job ^^ k)
                    (poll (scripted f) job \<lparr>service = n, trace = tr\<rparr>)
                  = (f (n + k), ''IN_PROGRESS'', polled job f n k tr)
                \<and> requests (trace (polled job f n k tr))
                  = requests tr @ replicate (Suc k) None)"
  using awaitCompletion_diverges [of f n job tr] assms
  by (simp add: poll_again_trace requests_polled)

theorem awaitCompletion_polls_forever_witness:
  "awaitCompletion (scripted (\<lambda>i. answer ''IN_PROGRESS'' None None [])) ''job''
     \<lparr>service = 0, trace = []\<rparr> = None
   \<and> requests (trace (polled ''job'' (\<lambda>i. answer ''IN_PROGRESS'' None None []) 0 1000 []))
     = replicate 1001 None"
proof -
  have "\<And>i. JobStatus ((\<lambda>i. answer ''IN_PROGRESS'' None None []) (0 + i)) = ''IN_PROGRESS''"
    by (simp add: answer_def)
  from awaitCompletion_polls_forever
    [of "\<lambda>i. answer ''IN_PROGRESS'' None None []" 0 "''job''" "[]", OF this]
  have "awaitCompletion (scripted (\<lambda>i. answer ''IN_PROGRESS'' None None [])) ''job''
          \<lparr>service = 0, trace = []\<rparr> = None"
    and "requests (trace (polled ''job'' (\<lambda>i. answer ''IN_PROGRESS'' None None []) 0 1000 []))
         = requests [] @ replicate (Suc 1000) None"
    by blast+
  then show ?thesis by simp
qed

text \<open>
  Against a service that stays \<^verbatim>\<open>IN_PROGRESS\<close> the cell never returns; after two
  turns of the loop three polls have been issued and the loop test still holds.
\<close>

theorem awaitCompletion_no_timeout_counterexample:
  "awaitCompletion (scripted (\<lambda>i. answer ''IN_PROGRESS'' None None [])) ''job''
     \<lparr>service = 0, trace = []\<rparr> = None
   \<and> (poll_again (scripted (\<lambda>i. answer ''IN_PROGRESS'' None None [])) ''job'' ^^ 2)
       (poll (scripted (\<lambda>i. answer ''IN_PROGRESS'' None None [])) ''job''
          \<lparr>service = 0, trace = []\<rparr>)
     = (answer ''IN_PROGRESS'' None None [], ''IN_PROGRESS'',
        \<lparr>service = 3,
         trace = [Sleep 5, GetDocumentAnalysis ''job'' None,
                  Sleep 5, GetDocumentAnalysis ''job'' None,
                  Print ''Textract Job status: IN_PROGRESS'',
                  Sleep 5, GetDocumentAnalysis ''job'' None,
                  Print ''Textract Job status: IN_PROGRESS'']\<rparr>)"
  using awaitCompletion_diverges
    [of "\<lambda>i. answer ''IN_PROGRESS'' None None []" 0 "''job''" "[]"]
  by (simp add: answer_def poll_scripted poll_again_scripted poll_events_def numeral_2_eq_2)

subsection \<open>C5: collecting the pages of a job that has not succeeded\<close>

text \<open>
  Claim C5, as amended. The collection cell does not look at the job status and
  raises nothing: whatever statuses \<open>st\<close> the answers carry, it returns as soon as an
  answer carries no token, and what it returns is the complete chain, every answer
  from the first request to the one without a token, in order, never a proper part
  of it. When every answer carries a token the cell never returns, so it leaves no
  result at all.
\<close>

theorem collectPages_ignores_status:
  "(\<forall>k. (\<forall>i<k. truthy (NextToken (f (n + i)))) \<longrightarrow> \<not> truthy (NextToken (f (n + k))) \<longrightarrow>
        collectPages (scripted (\<lambda>i. (f i)\<lparr>JobStatus := st i\<rparr>)) job \<lparr>service = n, trace = tr\<rparr>
        = Some (map (\<lambda>i. (f (n + i))\<lparr>JobStatus := st (n + i)\<rparr>) [0..<Suc k],
                NextToken (f (n + k)), paged job f n k tr))
   \<and> ((\<forall>i. truthy (NextToken (f (n + i)))) \<longrightarrow>
        collectPages (scripted (\<lambda>i. (f i)\<lparr>JobStatus := st i\<rparr>)) job \<lparr>service = n, trace = tr\<rparr>
        = None)"
proof (intro conjI allI impI)
  let ?g = "\<lambda>i. (f i)\<lparr>JobStatus := st i\<rparr>"
  fix k
  assume chain: "\<forall>i<k. truthy (NextToken (f (n + i)))" "\<not> truthy (NextToken (f (n + k)))"
  have "page_events job ?g n = page_events job f n"
    by (rule ext) (simp add: page_events_def)
  then show "collectPages (scripted ?g) job \<lparr>service = n, trace = tr\<rparr>
        = Some (map (\<lambda>i. (f (n + i))\<lparr>JobStatus := st (n + i)\<rparr>) [0..<Suc k],
                NextToken (f (n + k)), paged job f n k tr)"
    using collectPages_scripted [of k ?g n job tr] chain
    by (simp add: paged_def del: upt_Suc)
next
  let ?g = "\<lambda>i. (f i)\<lparr>JobStatus := st i\<rparr>"
  assume "\<forall>i. truthy (NextToken (f (n + i)))"
  then show "collectPages (scripted ?g) job \<lparr>service = n, trace = tr\<rparr> = None"
    using collectPages_diverges [of ?g n job tr] by simp
qed

text \<open>
  A chain of two pages of a job reported as \<^verbatim>\<open>FAILED\<close> is returned whole; a chain
  that never ends yields nothing.
\<close>

theorem collectPages_ignores_status_witness:
  "collectPages
     (scripted (\<lambda>i. (if i = 0 then answer ''SUCCEEDED'' None (Some ''t1'') [text_line ''A'']
                      else answer ''SUCCEEDED'' None None [text_line ''B''])\<lparr>JobStatus := ''FAILED''\<rparr>))
     ''job'' \<lparr>service = 0, trace = []\<rparr>
   = Some ([answer ''FAILED'' None (Some ''t1'') [text_line ''A''],
            answer ''FAILED'' None None [text_line ''B'']],
           None,
           \<lparr>service = 2,
            trace = [Sleep 5, GetDocumentAnalysis ''job'' None,
                     Sleep 5, GetDocumentAnalysis ''job'' (Some ''t1''),
                     Print ''Resultset page recieved: 2'']\<rparr>)
   \<and> collectPages
       (scripted (\<lambda>i. (answer ''SUCCEEDED'' None (Some ''t'') [])\<lparr>JobStatus := ''FAILED''\<rparr>))
       ''job'' \<lparr>service = 0, trace = []\<rparr>
     = None"
proof -
  have "collectPages
     (scripted (\<lambda>i. (if i = 0 then answer ''SUCCEEDED'' None (Some ''t1'') [text_line ''A'']
                      else answer ''SUCCEEDED'' None None [text_line ''B''])\<lparr>JobStatus := ''FAILED''\<rparr>))
     ''job'' \<lparr>service = 0, trace = []\<rparr>
   = Some (map (\<lambda>i. (if 0 + i = 0 then answer ''SUCCEEDED'' None (Some ''t1'') [text_line ''A'']
                      else answer ''SUCCEEDED'' None None [text_line ''B''])\<lparr>JobStatus := ''FAILED''\<rparr>)
               [0..<Suc 1],
           NextToken (if 0 + 1 = (0::nat) then answer ''SUCCEEDED'' None (Some ''t1'') [text_line ''A'']
                      else answer ''SUCCEEDED'' None None [text_line ''B'']),
           paged ''job'' (\<lambda>i. if i = 0 then answer ''SUCCEEDED'' None (Some ''t1'') [text_line ''A'']
                      else answer ''SUCCEEDED'' None None [text_line ''B'']) 0 1 [])"
    using collectPages_ignores_status
      [of "\<lambda>i. if i = 0 then answer ''SUCCEEDED'' None (Some ''t1'') [text_line ''A'']
                  else answer ''SUCCEEDED'' None None [text_line ''B'']" 0 "\<lambda>i. ''FAILED''"
          "''job''" "[]", THEN conjunct1, THEN spec, of 1]
    by (simp add: truthy_def answer_def)
  moreover have "collectPages
       (scripted (\<lambda>i. (answer ''SUCCEEDED'' None (Some ''t'') [])\<lparr>JobStatus := ''FAILED''\<rparr>))
       ''job'' \<lparr>service = 0, trace = []\<rparr>
     = None"
    using collectPages_ignores_status
      [of "\<lambda>i. answer ''SUCCEEDED'' None (Some ''t'') []" 0 "\<lambda>i. ''FAILED''"
          "''job''" "[]", THEN conjunct2]
    by (simp add: truthy_def answer_def)
  ultimately show ?thesis
    by (simp add: answer_def paged_def page_events_def str.simps digit_def)
qed

text \<open>
  A job still \<^verbatim>\<open>IN_PROGRESS\<close>: the cell returns the response as a page, normally.
\<close>

theorem collectPages_unfinished_job_counterexample:
  "collectPages (scripted (\<lambda>i. answer ''IN_PROGRESS'' None None [])) ''job''
     \<lparr>service = 0, trace = []\<rparr>
   = Some ([answer ''IN_PROGRESS'' None None []], None,
           \<lparr>service = 1, trace = [Sleep 5, GetDocumentAnalysis ''job'' None]\<rparr>)"
  using collectPages_scripted
    [of 0 "\<lambda>i. answer ''IN_PROGRESS'' None None []" 0 "''job''" "[]"]
  by (simp add: answer_def truthy_def)

subsection \<open>C6: statuses outside the chain\<close>

text \<open>
  Claim C6, as amended. The status loop checks no transition and raises nothing. It
  stops at the first status that is not \<^verbatim>\<open>IN_PROGRESS\<close>, whatever that status is,
  and exits normally with it; what the service would report after that is never
  requested, so two services that agree up to that answer give the same run.
\<close>

theorem awaitCompletion_stops_at_first_other_status:
  assumes "\<And>i. i < k \<Longrightarrow> JobStatus (f (n + i)) = ''IN_PROGRESS''"
    and "JobStatus (f (n + k)) \<noteq> ''IN_PROGRESS''"
    and "\<And>i. i \<le> k \<Longrightarrow> g (n + i) = f (n + i)"
  shows "awaitCompletion (scripted f) job \<lparr>service = n, trace = tr\<rparr>
           = Some (f (n + k), JobStatus (f (n + k)), polled job f n k tr)
         \<and> awaitCompletion (scripted g) job \<lparr>service = n, trace = tr\<rparr>
           = awaitCompletion (scripted f) job \<lparr>service = n, trace = tr\<rparr>"
proof -
  have f: "awaitCompletion (scripted f) job \<lparr>service = n, trace = tr\<rparr>
           = Some (f (n + k), JobStatus (f (n + k)), polled job f n k tr)"
    using awaitCompletion_scripted [of k f n job tr] assms(1,2) by (simp add: polled_def)
  have "\<And>i. i < k \<Longrightarrow> poll_events job g (Suc (n + i)) = poll_events job f (Suc (n + i))"
    using assms(3) [of "Suc _"] by (simp add: poll_events_def)
  then have "map (\<lambda>i. poll_events job g (Suc (n + i))) [0..<k]
             = map (\<lambda>i. poll_events job f (Suc (n + i))) [0..<k]"
    by (intro map_cong) simp_all
  then have "polled job g n k tr = polled job f n k tr"
    unfolding polled_def by (simp only:)
  moreover have "awaitCompletion (scripted g) job \<lparr>service = n, trace = tr\<rparr>
           = Some (g (n + k), JobStatus (g (n + k)), polled job g n k tr)"
    using awaitCompletion_scripted [of k g n job tr] assms by (simp add: polled_def)
  ultimately show ?thesis
    using f assms(3) [of k] by simp
qed

theorem awaitCompletion_stops_at_first_other_status_witness:
  "awaitCompletion
     (scripted (\<lambda>i. if i = 0 then answer ''IN_PROGRESS'' None None []
                     else if i = 1 then answer ''SUBMITTED'' None None []
                     else answer ''SUCCEEDED'' None None []))
     ''job'' \<lparr>service = 0, trace = []\<rparr>
   = Some (answer ''SUBMITTED'' None None [], ''SUBMITTED'',
           \<lparr>service = 2,
            trace = [Sleep 5, GetDocumentAnalysis ''job'' None,
                     Sleep 5, GetDocumentAnalysis ''job'' None,
                     Print ''Textract Job status: SUBMITTED'']\<rparr>)
   \<and> awaitCompletion
       (scripted (\<lambda>i. if i = 0 then answer ''IN_PROGRESS'' None None []
                       else if i = 1 then answer ''SUBMITTED'' None None []
                       else answer ''IN_PROGRESS'' None None []))
       ''job'' \<lparr>service = 0, trace = []\<rparr>
     = awaitCompletion
       (scripted (\<lambda>i. if i = 0 then answer ''IN_PROGRESS'' None None []
                       else if i = 1 then answer ''SUBMITTED'' None None []
                       else answer ''SUCCEEDED'' None None []))
       ''job'' \<lparr>service = 0, trace = []\<rparr>"
  using awaitCompletion_stops_at_first_other_status
    [of 1 "\<lambda>i. if i = 0 then answer ''IN_PROGRESS'' None None []
                else if i = 1 then answer ''SUBMITTED'' None None []
                else answer ''SUCCEEDED'' None None []" 0
        "\<lambda>i. if i = 0 then answer ''IN_PROGRESS'' None None []
                else if i = 1 then answer ''SUBMITTED'' None None []
                else answer ''IN_PROGRESS'' None None []" "''job''" "[]"]
  by (simp add: answer_def polled_def poll_events_def)

text \<open>
  A service that reports \<^verbatim>\<open>SUCCEEDED\<close> and would report \<^verbatim>\<open>IN_PROGRESS\<close> afterwards,
  and a service that reports an unknown status: the cell returns normally in both
  runs.
\<close>

theorem awaitCompletion_protocol_counterexample:
  "awaitCompletion
     (scripted (\<lambda>i. if i = 0 then answer ''SUCCEEDED'' None None []
                     else answer ''IN_PROGRESS'' None None []))
     ''job'' \<lparr>service = 0, trace = []\<rparr>
   = Some (answer ''SUCCEEDED'' None None [], ''SUCCEEDED'',
           \<lparr>service = 1, trace = [Sleep 5, GetDocumentAnalysis ''job'' None]\<rparr>)
   \<and> awaitCompletion (scripted (\<lambda>i. answer ''BOGUS'' None None [])) ''job''
       \<lparr>service = 0, trace = []\<rparr>
     = Some (answer ''BOGUS'' None None [], ''BOGUS'',
             \<lparr>service = 1, trace = [Sleep 5, GetDocumentAnalysis ''job'' None]\<rparr>)"
  using awaitCompletion_scripted
    [of 0 "\<lambda>i. if i = 0 then answer ''SUCCEEDED'' None None []
                else answer ''IN_PROGRESS'' None None []" 0 "''job''" "[]"]
    awaitCompletion_scripted [of 0 "\<lambda>i. answer ''BOGUS'' None None []" 0 "''job''" "[]"]
  by (simp add: answer_def)

subsection \<open>C7: chunking\<close>

text \<open>
  Claim C7. For every text of length \<open>L\<close> and the notebook's maximum chunk size
  \<open>M = 20000\<close>, the chunking loop produces exactly \<open>\<lceil>L / M\<rceil>\<close> chunks, each of at most
  \<open>M\<close> characters, and the chunks concatenated in order give the text back.
\<close>

theorem chunks_roundtrip:
  "length (chunks maxLength pageText) = (length pageText + maxLength - 1) div maxLength
   \<and> int (length (chunks maxLength pageText))
       = \<lceil>real (length pageText) / real maxLength\<rceil>
   \<and> (\<forall>c \<in> set (chunks maxLength pageText). length c \<le> maxLength)
   \<and> concat (chunks maxLength pageText) = pageText"
proof -
  have pos: "0 < maxLength"
    by (simp add: maxLength_def)
  have len: "length (chunks maxLength pageText)
             = (length pageText + maxLength - 1) div maxLength"
    using py_range_length [OF pos, of 0 "length pageText"] by (simp add: chunks_def)
  have "\<lceil>real (length pageText) / real maxLength\<rceil>
        = int ((length pageText + maxLength - 1) div maxLength)"
  proof (rule ceiling_unique)
    let ?L = "length pageText" and ?M = maxLength
    let ?q = "(?L + ?M - 1) div ?M"
    have m1: "?q * ?M \<le> ?L + ?M - 1"
      by (simp add: div_times_less_eq_dividend)
    have m2: "?L + ?M - 1 < (?q + 1) * ?M"
      using pos by (metis add.commute dividend_less_times_div mult.commute Suc_eq_plus1 add_Suc_right mult_Suc)
    from m2 pos have "?L \<le> ?q * ?M"
      by simp
    then have "real ?L \<le> real ?q * real ?M"
      by (metis of_nat_le_iff of_nat_mult)
    then show "real ?L / real ?M \<le> of_int (int ?q)"
      using pos by (simp add: divide_le_eq)
    from m1 pos have "?q * ?M < ?L + ?M"
      by linarith
    then have "real ?q * real ?M < real ?L + real ?M"
      by (metis of_nat_less_iff of_nat_mult of_nat_add)
    then have "(real ?q - 1) * real ?M < real ?L"
      by (simp add: algebra_simps)
    then show "of_int (int ?q) - 1 < real ?L / real ?M"
      using pos by (simp add: less_divide_eq)
  qed
  with len have ceil: "int (length (chunks maxLength pageText))
                       = \<lceil>real (length pageText) / real maxLength\<rceil>"
    by simp
  have cat: "concat (chunks maxLength pageText) = pageText"
    using chunks_concat_from [OF pos, of pageText 0] by (simp add: chunks_def)
  from len ceil cat show ?thesis
    using chunks_sizes by blast
qed

theorem chunks_roundtrip_witness:
  "replicate 20000 (CHR ''a'') \<in> set (chunks maxLength (replicate 40001 (CHR ''a'')))
   \<and> length (replicate 20000 (CHR ''a'')) \<le> maxLength
   \<and> length (chunks maxLength (replicate 40001 (CHR ''a''))) = 3
   \<and> concat (chunks maxLength (replicate 40001 (CHR ''a''))) = replicate 40001 (CHR ''a'')"
  using chunks_roundtrip [of "replicate 40001 (CHR ''a'')"]
  by (simp add: chunks_def py_range.simps py_slice_def maxLength_def)

subsection \<open>C8: the cell that prints the document\<close>

text \<open>
  Claim C8, as amended. The printing cell is deterministic in \<^verbatim>\<open>pages\<close> and touches
  neither \<^verbatim>\<open>pages\<close> nor the service, but it is not free of effects: it binds
  \<^verbatim>\<open>doc\<close> and \<^verbatim>\<open>idx\<close> and writes to standard output. When the parser succeeds the
  cell prints the number of pages and then, for every page of the document in order,
  the page index, counted from 1, and the page text, which is the text of the
  \<^verbatim>\<open>LINE\<close> blocks of that page, each followed by a newline; pages stay apart. What
  it prints depends on \<^verbatim>\<open>pages\<close> only: running the cell a second time prints the
  same lines again and binds the same values.
\<close>

theorem aggregateText_prints_pages:
  assumes "Document pages = Inr doc"
  shows "aggregateText BOLD END pages w
           = (Inr (doc, Suc (length doc)), w\<lparr>trace := trace w @ printed BOLD END doc\<rparr>)
         \<and> map page_text doc = map (\<lambda>page. lines_of (page_blocks page)) doc
         \<and> aggregateText BOLD END pages (snd (aggregateText BOLD END pages w))
           = (Inr (doc, Suc (length doc)),
              w\<lparr>trace := trace w @ printed BOLD END doc @ printed BOLD END doc\<rparr>)"
proof (intro conjI)
  show "aggregateText BOLD END pages w
        = (Inr (doc, Suc (length doc)), w\<lparr>trace := trace w @ printed BOLD END doc\<rparr>)"
    by (rule aggregateText_run [OF assms])
  show "map page_text doc = map (\<lambda>page. lines_of (page_blocks page)) doc"
    by (rule Document_page_text [OF assms])
  show "aggregateText BOLD END pages (snd (aggregateText BOLD END pages w))
        = (Inr (doc, Suc (length doc)),
           w\<lparr>trace := trace w @ printed BOLD END doc @ printed BOLD END doc\<rparr>)"
    by (simp add: aggregateText_run [OF assms])
qed

theorem aggregateText_prints_pages_witness:
  "aggregateText ''<b>'' ''</b>''
     [answer ''SUCCEEDED'' None (Some ''t1'') [page_start ''p1'', text_line ''A''],
      answer ''SUCCEEDED'' None None [text_line ''B'', page_start ''p2'', text_line ''C'']]
     \<lparr>service = 2 :: nat, trace = []\<rparr>
   = (Inr ([Page [page_start ''p1'', text_line ''A'', text_line ''B''],
            Page [page_start ''p2'', text_line ''C'']], 3),
      \<lparr>service = 2,
       trace = [Print ''Total length of document is 2'',
                Print (''<b>Results from page 1: '' @ [CHR 0x0A] @ ''</b> A'' @ [CHR 0x0A]
                       @ ''B'' @ [CHR 0x0A]),
                Print (''<b>Results from page 2: '' @ [CHR 0x0A] @ ''</b> C'' @ [CHR 0x0A])]\<rparr>)"
proof -
  let ?doc = "[Page [page_start ''p1'', text_line ''A'', text_line ''B''],
               Page [page_start ''p2'', text_line ''C'']]"
  have doc: "Document
       [answer ''SUCCEEDED'' None (Some ''t1'') [page_start ''p1'', text_line ''A''],
        answer ''SUCCEEDED'' None None [text_line ''B'', page_start ''p2'', text_line ''C'']]
     = Inr ?doc"
    by (simp add: answer_def page_start_def text_line_def Document_def
        parseDocumentPages_def parse_block_def flush_def)
  have pr: "printed ''<b>'' ''</b>'' ?doc
     = [Print ''Total length of document is 2'',
        Print (''<b>Results from page 1: '' @ [CHR 0x0A] @ ''</b> A'' @ [CHR 0x0A]
               @ ''B'' @ [CHR 0x0A]),
        Print (''<b>Results from page 2: '' @ [CHR 0x0A] @ ''</b> C'' @ [CHR 0x0A])]"
    by (simp add: printed_def page_text_Page lines_of_def text_line_def page_start_def
        str.simps digit_def upt_rec)
  from aggregateText_prints_pages [OF doc, of "''<b>''" "''</b>''" "\<lparr>service = 2, trace = []\<rparr>"]
  have "aggregateText ''<b>'' ''</b>''
     [answer ''SUCCEEDED'' None (Some ''t1'') [page_start ''p1'', text_line ''A''],
      answer ''SUCCEEDED'' None None [text_line ''B'', page_start ''p2'', text_line ''C'']]
     \<lparr>service = 2 :: nat, trace = []\<rparr>
     = (Inr (?doc, Suc (length ?doc)),
        \<lparr>service = 2, trace = []\<rparr>\<lparr>trace := trace \<lparr>service = 2 :: nat, trace = []\<rparr>
            @ printed ''<b>'' ''</b>'' ?doc\<rparr>)"
    by (rule conjunct1)
  then show ?thesis
    by (simp add: pr)
qed

text \<open>
  The cell performs output: after it the trace holds three printed lines that were
  not there before.
\<close>

theorem aggregateText_effects_counterexample:
  "snd (aggregateText [] [] [two_page_answer] \<lparr>service = 0 :: nat, trace = []\<rparr>)
   = \<lparr>service = 0,
      trace = [Print ''Total length of document is 2'',
               Print (''Results from page 1: '' @ [CHR 0x0A] @ '' Admission'' @ [CHR 0x0A]),
               Print (''Results from page 2: '' @ [CHR 0x0A] @ '' Discharge'' @ [CHR 0x0A])]\<rparr>
   \<and> snd (aggregateText [] [] [two_page_answer] \<lparr>service = 0 :: nat, trace = []\<rparr>)
     \<noteq> \<lparr>service = 0, trace = []\<rparr>"
proof -
  let ?doc = "[Page [page_start ''p1'', text_line ''Admission''],
               Page [page_start ''p2'', text_line ''Discharge'']]"
  have doc: "Document [two_page_answer] = Inr ?doc"
    by (simp add: two_page_answer_def page_start_def text_line_def Document_def
        parseDocumentPages_def parse_block_def flush_def)
  have pr: "printed [] [] ?doc
     = [Print ''Total length of document is 2'',
        Print (''Results from page 1: '' @ [CHR 0x0A] @ '' Admission'' @ [CHR 0x0A]),
        Print (''Results from page 2: '' @ [CHR 0x0A] @ '' Discharge'' @ [CHR 0x0A])]"
    by (simp add: printed_def page_text_Page lines_of_def text_line_def page_start_def
        str.simps digit_def upt_rec)
  show ?thesis
    by (simp add: aggregateText_run [OF doc] pr)
qed

subsection \<open>C9: the status loop and every status but \<^verbatim>\<open>IN_PROGRESS\<close>\<close>

text \<open>
  Claim C9. The status loop treats every status other than \<^verbatim>\<open>IN_PROGRESS\<close> as
  final and raises nothing. For every sequence of polled statuses that begins with
  \<open>k\<close> times \<^verbatim>\<open>IN_PROGRESS\<close> followed by any other value, the cell issues one
  request, polls again exactly \<open>k\<close> times, sleeps five seconds before each request,
  and exits normally with that other value in \<^verbatim>\<open>status\<close>. The collection cell run
  after it proceeds whatever that value is: it returns the pages of the token chain.
\<close>

theorem status_loop_exits_on_any_other_status:
  assumes "\<And>i. i < k \<Longrightarrow> JobStatus (f (n + i)) = ''IN_PROGRESS''"
    and "JobStatus (f (n + k)) \<noteq> ''IN_PROGRESS''"
    and "\<And>i. i < m \<Longrightarrow> truthy (NextToken (f (Suc (n + k) + i)))"
    and "\<not> truthy (NextToken (f (Suc (n + k) + m)))"
  shows "awaitCompletion (scripted f) job \<lparr>service = n, trace = tr\<rparr>
           = Some (f (n + k), JobStatus (f (n + k)), polled job f n k tr)
         \<and> trace (polled job f n k tr)
           = tr @ [Sleep 5, GetDocumentAnalysis job None]
             @ concat (map (\<lambda>i. [Sleep 5, GetDocumentAnalysis job None,
                                   Print (''Textract Job status: '' @ JobStatus (f (Suc (n + i))))])
                           [0..<k])
         \<and> collectPages (scripted f) job (polled job f n k tr)
           = Some (map (\<lambda>i. f (Suc (n + k) + i)) [0..<Suc m],
                   NextToken (f (Suc (n + k) + m)),
                   paged job f (Suc (n + k)) m (trace (polled job f n k tr)))"
proof -
  have "awaitCompletion (scripted f) job \<lparr>service = n, trace = tr\<rparr>
        = Some (f (n + k), JobStatus (f (n + k)), polled job f n k tr)"
    using awaitCompletion_scripted [of k f n job tr] assms(1,2) by (simp add: polled_def)
  moreover have "collectPages (scripted f) job (polled job f n k tr)
        = Some (map (\<lambda>i. f (Suc (n + k) + i)) [0..<Suc m],
                NextToken (f (Suc (n + k) + m)),
                paged job f (Suc (n + k)) m (trace (polled job f n k tr)))"
    using collectPages_scripted [of m f "Suc (n + k)" job "trace (polled job f n k tr)"]
      assms(3,4)
    by (simp add: polled_def paged_def del: upt_Suc)
  ultimately show ?thesis
    by (simp add: polled_def poll_events_def)
qed

theorem status_loop_exits_on_any_other_status_witness:
  "awaitCompletion
     (scripted (\<lambda>i. if i = 0 then answer ''IN_PROGRESS'' None None []
                     else answer ''PARTIAL_SUCCESS'' None None [text_line ''A'']))
     ''job'' \<lparr>service = 0, trace = []\<rparr>
   = Some (answer ''PARTIAL_SUCCESS'' None None [text_line ''A''], ''PARTIAL_SUCCESS'',
           \<lparr>service = 2,
            trace = [Sleep 5, GetDocumentAnalysis ''job'' None,
                     Sleep 5, GetDocumentAnalysis ''job'' None,
                     Print ''Textract Job status: PARTIAL_SUCCESS'']\<rparr>)
   \<and> collectPages
       (scripted (\<lambda>i. if i = 0 then answer ''IN_PROGRESS'' None None []
                       else answer ''PARTIAL_SUCCESS'' None None [text_line ''A'']))
       ''job''
       \<lparr>service = 2,
        trace = [Sleep 5, GetDocumentAnalysis ''job'' None,
                 Sleep 5, GetDocumentAnalysis ''job'' None,
                 Print ''Textract Job status: PARTIAL_SUCCESS'']\<rparr>
     = Some ([answer ''PARTIAL_SUCCESS'' None None [text_line ''A'']], None,
             \<lparr>service = 3,
              trace = [Sleep 5, GetDocumentAnalysis ''job'' None,
                       Sleep 5, GetDocumentAnalysis ''job'' None,
                       Print ''Textract Job status: PARTIAL_SUCCESS'',
                       Sleep 5, GetDocumentAnalysis ''job'' None]\<rparr>)"
  using status_loop_exits_on_any_other_status
    [of 1 "\<lambda>i. if i = 0 then answer ''IN_PROGRESS'' None None []
                else answer ''PARTIAL_SUCCESS'' None None [text_line ''A'']" 0 0 "''job''" "[]"]
  by (simp add: answer_def truthy_def polled_def paged_def poll_events_def
      numeral_2_eq_2 numeral_3_eq_3)

subsection \<open>C10: the train, validation and test split\<close>

text \<open>
  Claim C10. For every dictionary of \<open>n\<close> image ids and every shuffle, the three
  splits are a partition of the shuffled list: they are pairwise disjoint, their
  concatenation is the shuffled list, and their sizes are \<open>\<lfloor>0.8 n\<rfloor>\<close>,
  \<open>\<lfloor>0.9 n\<rfloor> - \<lfloor>0.8 n\<rfloor>\<close> and \<open>n - \<lfloor>0.9 n\<rfloor>\<close>. The keys of a dictionary are
  distinct. The length is taken below \<open>2 ^ 50\<close>: a list of \<open>2 ^ 50\<close> ids holds
  \<open>2 ^ 53\<close> bytes of references, more than a process can address, so every list the
  cell can receive is shorter.
\<close>

theorem split_is_partition:
  fixes sample_annos :: "('k::linorder \<times> 'v) list"
  assumes "distinct (map fst sample_annos)"
    and "\<And>xs :: 'k list. mset (shuffle xs) = mset xs"
    and "length sample_annos < 2 ^ 50"
  shows "mset (image_ids (split_cell shuffle sample_annos)) = mset (map fst sample_annos)
       \<and> train_ids (split_cell shuffle sample_annos) @ val_ids (split_cell shuffle sample_annos)
           @ test_ids (split_cell shuffle sample_annos)
         = image_ids (split_cell shuffle sample_annos)
       \<and> set (train_ids (split_cell shuffle sample_annos))
           \<inter> set (val_ids (split_cell shuffle sample_annos)) = {}
       \<and> set (train_ids (split_cell shuffle sample_annos))
           \<inter> set (test_ids (split_cell shuffle sample_annos)) = {}
       \<and> set (val_ids (split_cell shuffle sample_annos))
           \<inter> set (test_ids (split_cell shuffle sample_annos)) = {}
       \<and> int (length (train_ids (split_cell shuffle sample_annos)))
         = \<lfloor>0.8 * real (length sample_annos)\<rfloor>
       \<and> int (length (val_ids (split_cell shuffle sample_annos)))
         = \<lfloor>0.9 * real (length sample_annos)\<rfloor> - \<lfloor>0.8 * real (length sample_annos)\<rfloor>
       \<and> int (length (test_ids (split_cell shuffle sample_annos)))
         = int (length sample_annos) - \<lfloor>0.9 * real (length sample_annos)\<rfloor>"
proof -
  let ?n = "length sample_annos"
  let ?a = "int_times ?n double_0_8" and ?b = "int_times ?n double_0_9"
  note part = split_cell_partition [of sample_annos shuffle, OF assms(1,2)]
  have ab: "?a \<le> ?b" and bn: "?b \<le> ?n"
    by (rule split_points)+
  from part assms(3) have fa: "int ?a = \<lfloor>0.8 * real ?n\<rfloor>" and fb: "int ?b = \<lfloor>0.9 * real ?n\<rfloor>"
    by blast+
  from part have la: "length (train_ids (split_cell shuffle sample_annos)) = ?a"
    and lb: "length (val_ids (split_cell shuffle sample_annos)) = ?b - ?a"
    and lc: "length (test_ids (split_cell shuffle sample_annos)) = ?n - ?b"
    by blast+
  have "int (length (train_ids (split_cell shuffle sample_annos))) = \<lfloor>0.8 * real ?n\<rfloor>"
    by (simp only: la fa)
  moreover have "int (length (val_ids (split_cell shuffle sample_annos)))
                 = \<lfloor>0.9 * real ?n\<rfloor> - \<lfloor>0.8 * real ?n\<rfloor>"
    using ab by (simp only: lb fa [symmetric] fb [symmetric] of_nat_diff)
  moreover have "int (length (test_ids (split_cell shuffle sample_annos)))
                 = int ?n - \<lfloor>0.9 * real ?n\<rfloor>"
    using bn by (simp only: lc fb [symmetric] of_nat_diff)
  ultimately show ?thesis
    using part by blast
qed

text \<open>
  A dictionary of ten images, shuffled by reversal: eight ids for training, one for
  validation, one for testing.
\<close>

theorem split_is_partition_witness:
  "distinct (map fst ten_annos) \<and> length ten_annos < 2 ^ 50
   \<and> split_cell rev ten_annos
     = \<lparr>image_ids = [29, 23, 19, 17, 13, 11, 7, 5, 3, 2],
        train_ids = [29, 23, 19, 17, 13, 11, 7, 5], val_ids = [3], test_ids = [2]\<rparr>
   \<and> int (length (train_ids (split_cell rev ten_annos))) = \<lfloor>0.8 * real (length ten_annos)\<rfloor>
   \<and> int (length (val_ids (split_cell rev ten_annos)))
     = \<lfloor>0.9 * real (length ten_annos)\<rfloor> - \<lfloor>0.8 * real (length ten_annos)\<rfloor>
   \<and> int (length (test_ids (split_cell rev ten_annos)))
     = int (length ten_annos) - \<lfloor>0.9 * real (length ten_annos)\<rfloor>"
proof -
  have d: "distinct (map fst ten_annos)" and l: "length ten_annos < 2 ^ 50"
    by (simp_all add: ten_annos_def)
  have p: "\<And>xs :: nat list. mset (rev xs) = mset xs"
    by simp
  have f80: "int_times 10 double_0_8 = 8" and n10: "int_times 10 double_0_9 = 9"
    by (simp_all add: int_times_def to_double_def round_half_even_def double_0_8_def
        double_0_9_def bit_length.simps Let_def)
  have ids: "rev (sort (map fst ten_annos)) = [29, 23, 19, 17, 13, 11, 7, 5, 3, 2]"
    by (simp add: ten_annos_def)
  have l10: "length [29, 23, 19, 17, 13, 11, 7, 5, 3, 2 :: nat] = 10"
    by simp
  have "np_split [29, 23, 19, 17, 13, 11, 7, 5, 3, 2 :: nat] 8 9
        = ([29, 23, 19, 17, 13, 11, 7, 5], [3], [2])"
    by (simp add: np_split_def py_slice_def)
  then have cell: "split_cell rev ten_annos
     = \<lparr>image_ids = [29, 23, 19, 17, 13, 11, 7, 5, 3, 2],
        train_ids = [29, 23, 19, 17, 13, 11, 7, 5], val_ids = [3], test_ids = [2]\<rparr>"
    by (simp only: split_cell_def ids Let_def l10 f80 n10 prod.case)
  from split_is_partition [OF d p l] d l cell show ?thesis
    by blast
qed

end
